theory Spec2Isabelle
  imports Complex_Main
begin

text \<open>
  An embedding of the IRCCloud bot library: the events and their accessors, the bot
  with its authenticated requests, the loop that reads and dispatches the stream, the
  supervisor that restarts it, and the internal handlers of \<open>default_handlers.go\<close>.
  The network, the registered handlers and the cancellation of the parent context are
  inputs; a type assertion that fails is a panic, \<open>log.Fatalf\<close> an exit, and a send to
  the full event channel a suspended run that can be resumed.
\<close>

section \<open>Events\<close>

text \<open>
  An \<open>Event\<close> is Go's \<open>map[string]interface{}\<close>. The values an entry can hold are the
  ones \<open>encoding/json\<close> stores in an \<open>interface{}\<close> (text, boolean, \<open>float64\<close> number,
  null, array, object) and the pointer to the bot that \<open>listenAndParseEvents\<close> stores
  under \<open>_conn\<close>. A number is kept as the exact value of its \<open>float64\<close>.
\<close>

datatype jvalue =
    JString string
  | JBool bool
  | JNumber rat
  | JNull
  | JArray "jvalue list"
  | JObject "(string \<times> jvalue) list"
  | BotPtr

type_synonym Event = "string \<rightharpoonup> jvalue"

text \<open>A forced type assertion \<open>v.(T)\<close> either yields the value or panics.\<close>

datatype 'a asserted = Val 'a | AssertionPanic

datatype error =
    CannotReplyToType string
  | TransportError string
  | DecodeError string
  | APICallNotSuccessful
  | CouldNotFetchOOBInclude string
  | UnableToRequestStream string
  | ErrorWhileReadingStream string
  | HandlerError string

type_synonym EventHandler = "Event \<Rightarrow> error option"

section \<open>The bot and its surroundings\<close>

text \<open>
  A request as \<open>getAuthenticatedRequest\<close> and \<open>authenticatedPost\<close> build it: method, URL,
  the \<open>cookie\<close> header, the \<open>content-type\<close> header when set, and the form values of the
  body (\<open>url.Values\<close>, one value per key here).
\<close>

record request =
  req_method :: string
  req_url :: string
  req_cookie :: string
  req_content_type :: "string option"
  req_form :: "string \<rightharpoonup> string"

text \<open>The context a request is bound to: the parent context or the idle context of
  the \<open>n\<close>-th call of \<open>Start\<close>.\<close>

datatype ctx = ParentContext | IdleContext nat

text \<open>
  One line of the stream, by what \<open>json.Unmarshal\<close> into an \<open>Event\<close> makes of it: an
  error (the line's text is kept for the diagnostic) or an object with its fields.
\<close>

datatype line = Malformed string | Record Event

text \<open>
  The remote service seen through \<open>HTTPClient\<close>, by endpoint. \<open>stream\<close> answers the
  \<open>n\<close>-th stream request with a transport error or with the lines the scanner yields and
  the error \<open>lr.Err()\<close> reports once \<open>Scan\<close> is false (\<open>None\<close> at end of stream).
  \<open>fetch\<close> answers the backlog request with a transport error, a body that does not decode
  into \<open>[]Event\<close>, or the decoded events (\<open>None\<close> for a \<open>null\<close> element of the array,
  which decodes to a nil map). \<open>post\<close> answers a form post with a transport error, a body
  that is not a JSON object, or the decoded object. \<open>accepts\<close> tells whether
  \<open>http.NewRequest\<close> can parse a URL.
\<close>

datatype stream_reply = StreamFailed string | Stream "line list" "string option"
datatype fetch_reply = FetchFailed string | FetchUndecodable string | FetchEvents "Event option list"
datatype post_reply = PostFailed string | PostUndecodable string | PostObject Event

record http_client =
  stream :: "nat \<Rightarrow> request \<Rightarrow> stream_reply"
  fetch :: "request \<Rightarrow> fetch_reply"
  post :: "request \<Rightarrow> post_reply"
  accepts :: "string \<Rightarrow> bool"

text \<open>What the dispatch loop calls, in order: an internal handler, or the \<open>k\<close>-th
  registered handler of the event's type.\<close>

datatype call = InternalCall Event | ExternalCall nat Event

text \<open>
  \<open>IRCCloudBot\<close>. \<open>eventChan\<close> is the buffered channel as the queue of its contents,
  \<open>errChan\<close> the values handed to the unbuffered error channel and not yet received.
  \<open>parentDone n\<close> tells whether the parent context is cancelled when the \<open>n\<close>-th stream
  attempt has returned. The last five fields record effects on the surroundings:
  idle contexts (and timers) created by \<open>Start\<close>, resets of the idle timer, handler
  calls, lines printed by \<open>log.Printf\<close>, and requests handed to \<open>ctxhttp.Do\<close>.
\<close>

record bot =
  HTTPClient :: http_client
  AutoReconnect :: bool
  YieldInternalEvents :: bool
  DropUnhandledEvents :: bool
  eventHandlers :: "string \<rightharpoonup> EventHandler list"
  errChan :: "error option list"
  eventChan :: "Event list"
  parentDone :: "nat \<Rightarrow> bool"
  session :: string
  idleContexts :: nat
  idleTimerResets :: nat
  calls :: "call list"
  diagnostics :: "string list"
  requests :: "(ctx \<times> request) list"

text \<open>\<open>WithContext\<close> after a login that stored \<open>s\<close> as the session.\<close>

definition WithContext :: "http_client \<Rightarrow> (nat \<Rightarrow> bool) \<Rightarrow> string \<Rightarrow> bot" where
  "WithContext client done s =
     \<lparr> HTTPClient = client, AutoReconnect = True, YieldInternalEvents = False,
       DropUnhandledEvents = False, eventHandlers = Map.empty, errChan = [],
       eventChan = [], parentDone = done, session = s, idleContexts = 0,
       idleTimerResets = 0, calls = [], diagnostics = [], requests = [] \<rparr>"

definition RegisterMessageHandler :: "string \<Rightarrow> EventHandler \<Rightarrow> bot \<Rightarrow> bot" where
  "RegisterMessageHandler eventType eh i =
     (case eventHandlers i eventType of
        None \<Rightarrow> i\<lparr>eventHandlers := (eventHandlers i)(eventType \<mapsto> [eh])\<rparr>
      | Some ehs \<Rightarrow> i\<lparr>eventHandlers := (eventHandlers i)(eventType \<mapsto> ehs @ [eh])\<rparr>)"

text \<open>Successive calls of \<open>RegisterMessageHandler\<close> for one event type, first handler
  first.\<close>

definition register_in_order :: "string \<Rightarrow> EventHandler list \<Rightarrow> bot \<Rightarrow> bot" where
  "register_in_order eventType ehs i =
     foldl (\<lambda>b eh. RegisterMessageHandler eventType eh b) i ehs"

subsection \<open>The event channel\<close>

definition eventChanCapacity :: nat where
  "eventChanCapacity = 100"

text \<open>\<open>i.eventChan <- e\<close>: \<open>None\<close> when the buffer is full and the sender has to wait.\<close>

definition chan_send :: "Event \<Rightarrow> bot \<Rightarrow> bot option" where
  "chan_send e i =
     (if length (eventChan i) < eventChanCapacity
      then Some (i\<lparr>eventChan := eventChan i @ [e]\<rparr>) else None)"

text \<open>\<open><-i.Events()\<close> on the side of the application: \<open>None\<close> when the buffer is empty.\<close>

definition chan_recv :: "bot \<Rightarrow> (Event \<times> bot) option" where
  "chan_recv i = (case eventChan i of [] \<Rightarrow> None | e # q \<Rightarrow> Some (e, i\<lparr>eventChan := q\<rparr>))"

text \<open>\<open>Err\<close>: \<open>None\<close> while nothing has been handed to the error channel.\<close>

definition Err :: "bot \<Rightarrow> (error option \<times> bot) option" where
  "Err i = (case errChan i of [] \<Rightarrow> None | e # q \<Rightarrow> Some (e, i\<lparr>errChan := q\<rparr>))"

subsection \<open>Authenticated requests\<close>

text \<open>
  \<open>getAuthenticatedRequest\<close>: \<open>None\<close> is \<open>log.Fatalf\<close>, which ends the process. The
  function drops the error of \<open>http.NewRequest\<close>, which fails on a URL it cannot parse and
  then leaves a nil request for \<open>req.Header.Set\<close> to panic on. The methods and paths
  that the library passes itself (\<open>/chat/stream\<close>, \<open>/chat/say\<close>) do parse; the one path
  that comes from the wire, the \<open>url\<close> of an \<open>oob_include\<close> event, is checked where
  \<open>handleOOBInclude\<close> passes it.
\<close>

definition getAuthenticatedRequest ::
    "string \<Rightarrow> string \<Rightarrow> (string \<rightharpoonup> string) \<Rightarrow> bot \<Rightarrow> request option" where
  "getAuthenticatedRequest method urlPath body i =
     (if session i = [] then None
      else Some \<lparr> req_method = method, req_url = ''https://www.irccloud.com'' @ urlPath,
                  req_cookie = ''session='' @ session i, req_content_type = None,
                  req_form = body \<rparr>)"

text \<open>How a call into the bot ends: it returns its \<open>error\<close> value, panics, or the
  process exits in \<open>log.Fatalf\<close>.\<close>

datatype outcome = Returns "error option" bot | Panics bot | Exits bot

fun bot_of :: "outcome \<Rightarrow> bot" where
  "bot_of (Returns _ i) = i"
| "bot_of (Panics i) = i"
| "bot_of (Exits i) = i"

definition authenticatedPost :: "string \<Rightarrow> (string \<rightharpoonup> string) \<Rightarrow> bot \<Rightarrow> outcome" where
  "authenticatedPost path vals i =
     (case getAuthenticatedRequest ''POST'' path (vals(''session'' \<mapsto> session i)) i of
        None \<Rightarrow> Exits i
      | Some req0 \<Rightarrow>
          (let req = req0\<lparr>req_content_type := Some ''application/x-www-form-urlencoded''\<rparr>;
               i1 = i\<lparr>requests := requests i @ [(ParentContext, req)]\<rparr>
           in case post (HTTPClient i) req of
                PostFailed m \<Rightarrow> Returns (Some (TransportError m)) i1
              | PostUndecodable m \<Rightarrow> Returns (Some (DecodeError m)) i1
              | PostObject r \<Rightarrow>
                  (case r ''success'' of
                     Some (JBool ok) \<Rightarrow>
                       if \<not> ok then Returns (Some APICallNotSuccessful) i1
                       else Returns None i1
                   | _ \<Rightarrow> Panics i1)))"

text \<open>\<open>strconv.Itoa\<close>.\<close>

definition digit_char :: "nat \<Rightarrow> char" where
  "digit_char d = ''0123456789'' ! (d mod 10)"

fun utoa :: "nat \<Rightarrow> string" where
  "utoa n = (if n < 10 then [digit_char n] else utoa (n div 10) @ [digit_char n])"

declare utoa.simps [simp del]

definition Itoa :: "int \<Rightarrow> string" where
  "Itoa n = (if n < 0 then CHR ''-'' # utoa (nat (- n)) else utoa (nat n))"

definition Say :: "int \<Rightarrow> string \<Rightarrow> string \<Rightarrow> bot \<Rightarrow> outcome" where
  "Say connectionID target message i =
     authenticatedPost ''/chat/say''
       [''cid'' \<mapsto> Itoa connectionID, ''to'' \<mapsto> target, ''msg'' \<mapsto> message] i"

subsection \<open>Accessors of an event\<close>

definition Conn :: "Event \<Rightarrow> unit asserted" where
  "Conn e = (case e ''_conn'' of Some BotPtr \<Rightarrow> Val () | _ \<Rightarrow> AssertionPanic)"

definition FromBacklog :: "Event \<Rightarrow> bool asserted" where
  "FromBacklog e = (case e ''_from_backlog'' of Some (JBool b) \<Rightarrow> Val b | _ \<Rightarrow> AssertionPanic)"

text \<open>
  Go's conversion \<open>int(f)\<close> of a \<open>float64\<close> to the 64-bit \<open>int\<close> drops the fraction. For
  a value whose integer part is outside the range of \<open>int\<close> the language leaves the
  result to the implementation; the result here is the one of amd64, the least \<open>int\<close>.
\<close>

definition int_of_float64 :: "rat \<Rightarrow> int" where
  "int_of_float64 f =
     (let t = (if 0 \<le> f then \<lfloor>f\<rfloor> else \<lceil>f\<rceil>)
      in if - (2 ^ 63) \<le> t \<and> t < 2 ^ 63 then t else - (2 ^ 63))"

definition Reply :: "Event \<Rightarrow> string \<Rightarrow> bot \<Rightarrow> outcome" where
  "Reply e message i =
     (if e ''type'' \<noteq> Some (JString ''buffer_msg'') then
        (case e ''type'' of
           Some (JString t) \<Rightarrow> Returns (Some (CannotReplyToType t)) i
         | _ \<Rightarrow> Panics i)
      else
        (case Conn e of
           AssertionPanic \<Rightarrow> Panics i
         | Val _ \<Rightarrow>
             (case e ''cid'' of
                Some (JNumber c) \<Rightarrow>
                  (case e ''chan'' of
                     Some (JString ch) \<Rightarrow> Say (int_of_float64 c) ch message i
                   | _ \<Rightarrow> Panics i)
              | _ \<Rightarrow> Panics i)))"

section \<open>Internal handlers\<close>

text \<open>
  \<open>handleOOBInclude\<close> is embedded in the revision that decodes the response into
  \<open>[]Event\<close> and sends the events to \<open>eventChan\<close>: the one that fits the
  \<open>listenAndParseEvents\<close> embedded here, which dispatches in its own loop. The
  revisions kept in \<open>default_handlers.go\<close> either discard the response or hand its
  lines to a method \<open>handleEvent\<close> that this \<open>IRCCloudBot\<close> does not have.
\<close>

text \<open>
  How an internal handler ends: it returns its \<open>error\<close> value, panics, the process exits,
  or it waits in a send to the full event channel with these decoded events still to
  send (the first one is the event of the waiting send).
\<close>

datatype handled =
    Handled "error option" bot
  | HandlerPanics bot
  | HandlerExits bot
  | HandlerWaits "Event option list" bot

text \<open>The loop \<open>for _, e := range r\<close> of \<open>handleOOBInclude\<close>; the assignment to an entry
  of a nil map panics.\<close>

fun push_backlog :: "Event option list \<Rightarrow> bot \<Rightarrow> handled" where
  "push_backlog [] i = Handled None i"
| "push_backlog (None # r) i = HandlerPanics i"
| "push_backlog (Some e # r) i =
     (case chan_send (e(''_from_backlog'' \<mapsto> JBool True)) i of
        Some i1 \<Rightarrow> push_backlog r i1
      | None \<Rightarrow> HandlerWaits (Some e # r) i)"

definition handleOOBInclude :: "Event \<Rightarrow> bot \<Rightarrow> handled" where
  "handleOOBInclude evt i =
     (case evt ''_conn'' of
        Some BotPtr \<Rightarrow>
          (case evt ''url'' of
             Some (JString u) \<Rightarrow>
               (case getAuthenticatedRequest ''GET'' u Map.empty i of
                  None \<Rightarrow> HandlerExits i
                | Some req \<Rightarrow>
                    if \<not> accepts (HTTPClient i) (req_url req) then HandlerPanics i
                    else
                      (let i1 = i\<lparr>requests :=
                                   requests i @ [(IdleContext (idleContexts i), req)]\<rparr>
                       in case fetch (HTTPClient i) req of
                            FetchFailed m \<Rightarrow> Handled (Some (CouldNotFetchOOBInclude m)) i1
                          | FetchUndecodable m \<Rightarrow> Handled (Some (DecodeError m)) i1
                          | FetchEvents r \<Rightarrow> push_backlog r i1))
           | _ \<Rightarrow> HandlerPanics i)
      | _ \<Rightarrow> HandlerPanics i)"

definition handleIdle :: "Event \<Rightarrow> bot \<Rightarrow> handled" where
  "handleIdle evt i = Handled None i"

definition internalMessageHandlers :: "string \<rightharpoonup> (Event \<Rightarrow> bot \<Rightarrow> handled)" where
  "internalMessageHandlers =
     [''oob_include'' \<mapsto> handleOOBInclude, ''idle'' \<mapsto> handleIdle]"

section \<open>Reading and dispatching the stream\<close>

text \<open>
  What can keep the body of the scan loop from reaching its end: a \<open>return err\<close>, a panic,
  \<open>log.Fatalf\<close>, or a send that waits for room in the event channel. A waiting send is
  either the one of the loop itself, or the one inside \<open>handleOOBInclude\<close>, with the
  backlog events still to send, the event being handled and its type.
\<close>

datatype pending = SendLive Event | SendBacklog "Event option list" Event string

datatype interrupt = Return error | Panic | Exit | Block pending

datatype body_result = Continue bot | Interrupt interrupt bot

text \<open>The loop \<open>for _, eh := range ehs\<close>; \<open>k\<close> is the position of the next handler.\<close>

fun call_handlers :: "nat \<Rightarrow> EventHandler list \<Rightarrow> Event \<Rightarrow> bot \<Rightarrow> body_result" where
  "call_handlers k [] e i = Continue i"
| "call_handlers k (eh # ehs) e i =
     (let i1 = i\<lparr>calls := calls i @ [ExternalCall k e]\<rparr>
      in case eh e of
           Some err \<Rightarrow> Interrupt (Return err) i1
         | None \<Rightarrow> call_handlers (Suc k) ehs e i1)"

text \<open>The \<open>else\<close> branch for an event no registered handler takes.\<close>

definition offerUnhandled :: "Event \<Rightarrow> bot \<Rightarrow> body_result" where
  "offerUnhandled e i =
     (if \<not> DropUnhandledEvents i then
        (case chan_send e i of
           Some i1 \<Rightarrow> Continue i1
         | None \<Rightarrow> Interrupt (Block (SendLive e)) i)
      else Continue i)"

text \<open>The statement \<open>if ehs, ok := i.eventHandlers[...]; ok && len(ehs) > 0\<close> with both
  branches.\<close>

definition externalDispatch :: "Event \<Rightarrow> string \<Rightarrow> bot \<Rightarrow> body_result" where
  "externalDispatch e T i =
     (case eventHandlers i T of
        Some ehs \<Rightarrow> if 0 < length ehs then call_handlers 0 ehs e i else offerUnhandled e i
      | None \<Rightarrow> offerUnhandled e i)"

text \<open>The statement \<open>if !internallyHandled || i.YieldInternalEvents\<close>.\<close>

definition afterInternal :: "bool \<Rightarrow> Event \<Rightarrow> string \<Rightarrow> bot \<Rightarrow> body_result" where
  "afterInternal internallyHandled e T i =
     (if \<not> internallyHandled \<or> YieldInternalEvents i then externalDispatch e T i
      else Continue i)"

text \<open>What the loop does with the way the internal handler ended.\<close>

fun afterHandler :: "handled \<Rightarrow> Event \<Rightarrow> string \<Rightarrow> body_result" where
  "afterHandler (Handled (Some err) i) e T = Interrupt (Return err) i"
| "afterHandler (Handled None i) e T = afterInternal True e T i"
| "afterHandler (HandlerPanics i) e T = Interrupt Panic i"
| "afterHandler (HandlerExits i) e T = Interrupt Exit i"
| "afterHandler (HandlerWaits es i) e T = Interrupt (Block (SendBacklog es e T)) i"

text \<open>The loop's body from the lookup in \<open>internalMessageHandlers\<close> on.\<close>

definition dispatch :: "Event \<Rightarrow> bot \<Rightarrow> body_result" where
  "dispatch e i =
     (case e ''type'' of
        Some (JString T) \<Rightarrow>
          (case internalMessageHandlers T of
             Some ih \<Rightarrow> afterHandler (ih e (i\<lparr>calls := calls i @ [InternalCall e]\<rparr>)) e T
           | None \<Rightarrow> afterInternal False e T i)
      | _ \<Rightarrow> Interrupt Panic i)"

text \<open>\<open>json.Unmarshal\<close> into the map that holds \<open>_conn\<close> already: the fields of the
  record are stored over it.\<close>

definition unmarshal :: "Event \<Rightarrow> Event" where
  "unmarshal r = [''_conn'' \<mapsto> BotPtr] ++ r"

fun loop_body :: "line \<Rightarrow> bot \<Rightarrow> body_result" where
  "loop_body (Malformed s) i = Continue (i\<lparr>diagnostics := diagnostics i @ [s]\<rparr>)"
| "loop_body (Record r) i =
     dispatch (unmarshal r) (i\<lparr>idleTimerResets := Suc (idleTimerResets i)\<rparr>)"

text \<open>How the loop \<open>for lr.Scan()\<close> is left: \<open>Scan\<close> is false, or the body is interrupted
  with these lines not yet read.\<close>

datatype loop_exit = ScanEnded bot | Interrupted interrupt bot "line list"

fun scan_loop :: "line list \<Rightarrow> bot \<Rightarrow> loop_exit" where
  "scan_loop [] i = ScanEnded i"
| "scan_loop (l # ls) i =
     (case loop_body l i of
        Continue i1 \<Rightarrow> scan_loop ls i1
      | Interrupt x i1 \<Rightarrow> Interrupted x i1 ls)"

text \<open>A waiting send is tried again when the application has received from the
  channel; the body, and then the loop, go on from there.\<close>

fun resume :: "pending \<Rightarrow> bot \<Rightarrow> body_result" where
  "resume (SendLive e) i =
     (case chan_send e i of
        Some i1 \<Rightarrow> Continue i1
      | None \<Rightarrow> Interrupt (Block (SendLive e)) i)"
| "resume (SendBacklog es e T) i = afterHandler (push_backlog es i) e T"

definition resume_loop :: "pending \<Rightarrow> line list \<Rightarrow> bot \<Rightarrow> loop_exit" where
  "resume_loop p ls i =
     (case resume p i of
        Continue i1 \<Rightarrow> scan_loop ls i1
      | Interrupt x i1 \<Rightarrow> Interrupted x i1 ls)"

text \<open>How a stream attempt ends: \<open>listenAndParseEvents\<close> returns, the process dies in a
  panic or in \<open>log.Fatalf\<close>, or the attempt waits in a send (with the unread lines and
  the scanner's final error).\<close>

datatype attempt =
    Returned "error option" bot
  | Crashed bot
  | Aborted bot
  | Waiting pending bot "line list" "string option"

fun afterLoop :: "string option \<Rightarrow> loop_exit \<Rightarrow> attempt" where
  "afterLoop rerr (ScanEnded i) =
     (case rerr of
        Some m \<Rightarrow> Returned (Some (ErrorWhileReadingStream m)) i
      | None \<Rightarrow> Returned None i)"
| "afterLoop rerr (Interrupted (Return err) i ls) = Returned (Some err) i"
| "afterLoop rerr (Interrupted Panic i ls) = Crashed i"
| "afterLoop rerr (Interrupted Exit i ls) = Aborted i"
| "afterLoop rerr (Interrupted (Block p) i ls) = Waiting p i ls rerr"

definition listenAndParseEvents :: "bot \<Rightarrow> attempt" where
  "listenAndParseEvents i =
     (case getAuthenticatedRequest ''GET'' ''/chat/stream'' Map.empty i of
        None \<Rightarrow> Aborted i
      | Some req \<Rightarrow>
          (let i1 = i\<lparr>requests := requests i @ [(IdleContext (idleContexts i), req)]\<rparr>
           in case stream (HTTPClient i) (idleContexts i) req of
                StreamFailed m \<Rightarrow> Returned (Some (UnableToRequestStream m)) i1
              | Stream ls rerr \<Rightarrow> afterLoop rerr (scan_loop ls i1)))"

section \<open>The supervisor\<close>

text \<open>
  \<open>Start\<close> creates the idle context and its timer, runs one stream attempt and either
  calls itself or hands the attempt's error to \<open>errChan\<close>. Nothing bounds the number of
  attempts, so the function takes the number of attempts to follow: \<open>Connected\<close> is the
  supervisor about to make the next attempt, \<open>Terminated\<close> the one that has handed over
  the error, \<open>Halted\<close> the one whose attempt did not return.
\<close>

datatype supervisor = Connected bot | Terminated bot | Halted attempt

fun Start :: "nat \<Rightarrow> bot \<Rightarrow> supervisor" where
  "Start 0 i = Connected i"
| "Start (Suc n) i =
     (case listenAndParseEvents (i\<lparr>idleContexts := Suc (idleContexts i)\<rparr>) of
        Returned err i1 \<Rightarrow>
          if \<not> parentDone i1 (idleContexts i1) \<and> AutoReconnect i1 then Start n i1
          else Terminated (i1\<lparr>errChan := errChan i1 @ [err]\<rparr>)
      | Crashed i1 \<Rightarrow> Halted (Crashed i1)
      | Aborted i1 \<Rightarrow> Halted (Aborted i1)
      | Waiting p i1 ls rerr \<Rightarrow> Halted (Waiting p i1 ls rerr))"

section \<open>Projections, the frame of a run, and example inputs\<close>

text \<open>The bot as a call, a handler, the loop's body, the loop, an attempt or the
  supervisor leaves it.\<close>

fun handled_bot :: "handled \<Rightarrow> bot" where
  "handled_bot (Handled _ i) = i"
| "handled_bot (HandlerPanics i) = i"
| "handled_bot (HandlerExits i) = i"
| "handled_bot (HandlerWaits _ i) = i"

fun body_bot :: "body_result \<Rightarrow> bot" where
  "body_bot (Continue i) = i"
| "body_bot (Interrupt _ i) = i"

fun exit_bot :: "loop_exit \<Rightarrow> bot" where
  "exit_bot (ScanEnded i) = i"
| "exit_bot (Interrupted _ i _) = i"

fun attempt_bot :: "attempt \<Rightarrow> bot" where
  "attempt_bot (Returned _ i) = i"
| "attempt_bot (Crashed i) = i"
| "attempt_bot (Aborted i) = i"
| "attempt_bot (Waiting _ i _ _) = i"

fun supervisor_bot :: "supervisor \<Rightarrow> bot" where
  "supervisor_bot (Connected i) = i"
| "supervisor_bot (Terminated i) = i"
| "supervisor_bot (Halted a) = attempt_bot a"

text \<open>A request carries a session credential when its cookie is \<open>session=\<close> followed by
  at least one character; a bot is credentialed when every request it has handed to
  the HTTP client does.\<close>

definition carries_credential :: "request \<Rightarrow> bool" where
  "carries_credential r \<longleftrightarrow> take 8 (req_cookie r) = ''session='' \<and> 8 < length (req_cookie r)"

definition credentialed :: "bot \<Rightarrow> bool" where
  "credentialed i \<longleftrightarrow> list_all (\<lambda>cr. carries_credential (snd cr)) (requests i)"

text \<open>
  What no part of a stream attempt changes, and what it only extends: the settings, the
  handler table, the error channel, the session and the idle context stay; handler
  calls, diagnostics, queued events and requests are appended to, every new request
  with a credential; the event channel stays within its capacity.
\<close>

definition frame :: "bot \<Rightarrow> bot \<Rightarrow> bool" where
  "frame i j \<longleftrightarrow>
     HTTPClient j = HTTPClient i \<and> AutoReconnect j = AutoReconnect i \<and>
     YieldInternalEvents j = YieldInternalEvents i \<and>
     DropUnhandledEvents j = DropUnhandledEvents i \<and>
     eventHandlers j = eventHandlers i \<and> errChan j = errChan i \<and>
     parentDone j = parentDone i \<and> session j = session i \<and>
     idleContexts j = idleContexts i \<and>
     (\<exists>cs. calls j = calls i @ cs) \<and>
     (\<exists>ds. diagnostics j = diagnostics i @ ds) \<and>
     (\<exists>es. eventChan j = eventChan i @ es) \<and>
     (\<exists>rs. requests j = requests i @ rs \<and> list_all (\<lambda>cr. carries_credential (snd cr)) rs) \<and>
     idleTimerResets i \<le> idleTimerResets j \<and>
     (length (eventChan i) \<le> eventChanCapacity \<longrightarrow> length (eventChan j) \<le> eventChanCapacity)"

text \<open>Example inputs: a service that answers every request with nothing to do, a bot
  on it as \<open>WithContext\<close> leaves it, and a channel message.\<close>

definition quiet_client :: http_client where
  "quiet_client =
     \<lparr> stream = (\<lambda>n r. Stream [] None), fetch = (\<lambda>r. FetchEvents []),
       post = (\<lambda>r. PostObject [''success'' \<mapsto> JBool True]), accepts = (\<lambda>u. True) \<rparr>"

definition plain_bot :: bot where
  "plain_bot = WithContext quiet_client (\<lambda>n. False) ''secret''"

definition message_record :: Event where
  "message_record =
     [''type'' \<mapsto> JString ''buffer_msg'', ''cid'' \<mapsto> JNumber 2,
      ''chan'' \<mapsto> JString ''#mychannel'', ''msg'' \<mapsto> JString ''hi'']"

text \<open>What the dispatch of one event leaves exactly as it was: the count of timer
  resets and the diagnostics.\<close>

definition inner :: "bot \<Rightarrow> bot \<Rightarrow> bool" where
  "inner i j \<longleftrightarrow> idleTimerResets j = idleTimerResets i \<and> diagnostics j = diagnostics i"

text \<open>The lines a left loop has not read, the lines that decode, and the texts of the
  lines that do not.\<close>

fun unread :: "loop_exit \<Rightarrow> line list" where
  "unread (ScanEnded i) = []"
| "unread (Interrupted x i ls) = ls"

fun is_record :: "line \<Rightarrow> bool" where
  "is_record (Record r) = True"
| "is_record (Malformed s) = False"

fun malformed_texts :: "line list \<Rightarrow> string list" where
  "malformed_texts [] = []"
| "malformed_texts (Malformed s # ls) = s # malformed_texts ls"
| "malformed_texts (Record r # ls) = malformed_texts ls"

text \<open>The request that opens the stream for a session.\<close>

definition stream_request :: "string \<Rightarrow> request" where
  "stream_request s =
     \<lparr> req_method = ''GET'', req_url = ''https://www.irccloud.com/chat/stream'',
       req_cookie = ''session='' @ s, req_content_type = None, req_form = Map.empty \<rparr>"

text \<open>The request \<open>Say\<close> posts for a session, a connection identifier, a target and a
  message.\<close>

definition say_request :: "string \<Rightarrow> int \<Rightarrow> string \<Rightarrow> string \<Rightarrow> request" where
  "say_request s connectionID target message =
     \<lparr> req_method = ''POST'', req_url = ''https://www.irccloud.com/chat/say'',
       req_cookie = ''session='' @ s,
       req_content_type = Some ''application/x-www-form-urlencoded'',
       req_form = [''cid'' \<mapsto> Itoa connectionID, ''to'' \<mapsto> target,
                   ''msg'' \<mapsto> message, ''session'' \<mapsto> s] \<rparr>"

text \<open>
  Further example inputs: an \<open>idle\<close> and an \<open>oob_include\<close> record; a handler that accepts
  and two that fail, each with its own error; bots that drop unhandled events, have a full event channel, have
  three handlers registered for \<open>buffer_msg\<close>, receive a backlog of two events, yield
  internal events while the backlog fetch fails; a stream of four lines; a service whose
  stream breaks at once, under a parent context cancelled during the second attempt;
  and a bot without auto-reconnect on a stream that ends.
\<close>

definition idle_record :: Event where
  "idle_record = [''type'' \<mapsto> JString ''idle'']"

definition include_record :: Event where
  "include_record = [''type'' \<mapsto> JString ''oob_include'', ''url'' \<mapsto> JString ''/chat/backlog'']"

definition accept :: EventHandler where
  "accept e = None"

definition reject :: EventHandler where
  "reject e = Some (HandlerError ''rejected'')"

definition dropping_bot :: bot where
  "dropping_bot = plain_bot\<lparr>DropUnhandledEvents := True\<rparr>"

definition full_bot :: bot where
  "full_bot = plain_bot\<lparr>eventChan := replicate 100 (unmarshal idle_record)\<rparr>"

definition refuse :: EventHandler where
  "refuse e = Some (HandlerError ''refused'')"

definition handling_bot :: bot where
  "handling_bot = register_in_order ''buffer_msg'' [accept, reject, refuse] plain_bot"

definition backlog_client :: http_client where
  "backlog_client =
     quiet_client\<lparr>fetch := (\<lambda>r. FetchEvents [Some message_record, Some idle_record])\<rparr>"

definition backlog_bot :: bot where
  "backlog_bot =
     RegisterMessageHandler ''buffer_msg'' accept
       ((WithContext backlog_client (\<lambda>n. False) ''secret'')\<lparr>DropUnhandledEvents := True\<rparr>)"

definition failing_client :: http_client where
  "failing_client = quiet_client\<lparr>fetch := (\<lambda>r. FetchFailed ''timeout'')\<rparr>"

definition yielding_bot :: bot where
  "yielding_bot =
     RegisterMessageHandler ''oob_include'' accept
       ((WithContext failing_client (\<lambda>n. False) ''secret'')\<lparr>YieldInternalEvents := True\<rparr>)"

definition mixed_lines :: "line list" where
  "mixed_lines =
     [Malformed ''{oops'', Record message_record, Malformed ''[]'', Record idle_record]"

definition resetting_client :: http_client where
  "resetting_client = quiet_client\<lparr>stream := (\<lambda>n r. Stream [] (Some ''connection reset''))\<rparr>"

definition persistent_bot :: bot where
  "persistent_bot = WithContext resetting_client (\<lambda>n. 2 \<le> n) ''secret''"

definition single_shot_bot :: bot where
  "single_shot_bot =
     (WithContext (quiet_client\<lparr>stream := (\<lambda>n r. Stream mixed_lines None)\<rparr>)
        (\<lambda>n. False) ''secret'')\<lparr>AutoReconnect := False\<rparr>"

lemmas run_defs =
  unmarshal_def dispatch_def afterInternal_def externalDispatch_def offerUnhandled_def
  chan_send_def eventChanCapacity_def internalMessageHandlers_def handleIdle_def
  handleOOBInclude_def getAuthenticatedRequest_def Let_def

section \<open>What a stream attempt leaves unchanged\<close>

lemma frame_refl: "frame i i" by (simp add: frame_def)

lemma frame_trans: "frame i j \<Longrightarrow> frame j k \<Longrightarrow> frame i k"
  unfolding frame_def by (elim conjE exE) (simp)

lemma frame_calls: "frame i (i\<lparr>calls := calls i @ cs\<rparr>)" by (simp add: frame_def)
lemma frame_diagnostics: "frame i (i\<lparr>diagnostics := diagnostics i @ ds\<rparr>)" by (simp add: frame_def)
lemma frame_resets: "frame i (i\<lparr>idleTimerResets := Suc (idleTimerResets i)\<rparr>)" by (simp add: frame_def)
lemma frame_requests:
  "getAuthenticatedRequest m p b i = Some req \<Longrightarrow>
   frame i (i\<lparr>requests := requests i @ [(c, req)]\<rparr>)"
  by (auto simp: frame_def getAuthenticatedRequest_def carries_credential_def split: if_splits)

lemma chan_send_frame: "chan_send e i = Some j \<Longrightarrow> frame i j"
  by (auto simp: chan_send_def frame_def split: if_splits)

lemma push_backlog_frame: "frame i (handled_bot (push_backlog es i))"
proof (induction es i rule: push_backlog.induct)
  case (1 i) show ?case by (simp add: frame_refl)
next
  case (2 r i) show ?case by (simp add: frame_refl)
next
  case (3 e r i)
  show ?case
  proof (cases "chan_send (e(''_from_backlog'' \<mapsto> JBool True)) i")
    case None then show ?thesis by (simp add: frame_refl)
  next
    case (Some j)
    with "3.IH"[of j] chan_send_frame[OF Some] show ?thesis by (auto intro: frame_trans)
  qed
qed

lemma handleOOBInclude_frame: "frame i (handled_bot (handleOOBInclude evt i))"
proof -
  have b: "getAuthenticatedRequest m p bd i = Some req \<Longrightarrow>
      frame i (handled_bot (push_backlog es (i\<lparr>requests := requests i @ [(c, req)]\<rparr>)))"
    for es m p bd req c
    using frame_trans[OF frame_requests push_backlog_frame] .
  show ?thesis
    unfolding handleOOBInclude_def
    by (simp add: frame_refl frame_requests b Let_def
          split: option.split jvalue.split fetch_reply.split)
qed

lemma handleIdle_frame: "frame i (handled_bot (handleIdle evt i))"
  by (simp add: handleIdle_def frame_refl)

lemma internal_frame:
  "internalMessageHandlers T = Some ih \<Longrightarrow> frame i (handled_bot (ih e i))"
  by (auto simp: internalMessageHandlers_def handleOOBInclude_frame handleIdle_frame
           split: if_splits)

lemma call_handlers_frame: "frame i (body_bot (call_handlers k ehs e i))"
proof (induction ehs arbitrary: k i)
  case Nil show ?case by (simp add: frame_refl)
next
  case (Cons eh ehs)
  show ?case
    using frame_trans[OF frame_calls Cons]
    by (simp add: Let_def frame_calls split: option.split)
qed

lemma offerUnhandled_frame: "frame i (body_bot (offerUnhandled e i))"
  by (auto simp: offerUnhandled_def frame_refl chan_send_frame split: option.split)

lemma externalDispatch_frame: "frame i (body_bot (externalDispatch e T i))"
  by (simp add: externalDispatch_def call_handlers_frame offerUnhandled_frame split: option.split)

lemma afterInternal_frame: "frame i (body_bot (afterInternal b e T i))"
  by (simp add: afterInternal_def externalDispatch_frame frame_refl)

lemma afterHandler_frame: "frame (handled_bot h) (body_bot (afterHandler h e T))"
  by (cases "(h, e, T)" rule: afterHandler.cases) (simp_all add: frame_refl afterInternal_frame)

lemma dispatch_frame: "frame i (body_bot (dispatch e i))"
proof -
  have b: "internalMessageHandlers T = Some ih \<Longrightarrow>
        frame i (body_bot (afterHandler (ih e (i\<lparr>calls := calls i @ cs\<rparr>)) e T))" for T ih cs
    using frame_trans[OF frame_calls frame_trans[OF internal_frame afterHandler_frame]] by blast
  show ?thesis
    unfolding dispatch_def
    by (simp add: frame_refl afterInternal_frame b split: option.split jvalue.split)
qed

lemma loop_body_frame: "frame i (body_bot (loop_body l i))"
proof (cases l)
  case (Malformed s) then show ?thesis by (simp add: frame_diagnostics)
next
  case (Record r)
  show ?thesis using frame_trans[OF frame_resets dispatch_frame] by (simp add: Record)
qed

lemma scan_loop_frame: "frame i (exit_bot (scan_loop ls i))"
proof (induction ls arbitrary: i)
  case Nil show ?case by (simp add: frame_refl)
next
  case (Cons l ls)
  show ?case
  proof (cases "loop_body l i")
    case (Continue j)
    with loop_body_frame[of i l] Cons[of j] show ?thesis by (auto intro: frame_trans)
  next
    case (Interrupt x j)
    with loop_body_frame[of i l] show ?thesis by simp
  qed
qed

lemma afterLoop_bot: "attempt_bot (afterLoop rerr x) = exit_bot x"
  by (cases "(rerr, x)" rule: afterLoop.cases) (simp_all split: option.split)

lemma listen_frame: "frame i (attempt_bot (listenAndParseEvents i))"
proof -
  have b: "getAuthenticatedRequest m p bd i = Some req \<Longrightarrow>
     frame i (exit_bot (scan_loop ls (i\<lparr>requests := requests i @ [(c, req)]\<rparr>)))"
    for ls m p bd req c
    using frame_trans[OF frame_requests scan_loop_frame] .
  show ?thesis
    unfolding listenAndParseEvents_def
    by (simp add: frame_refl frame_requests b afterLoop_bot Let_def
          split: option.split stream_reply.split)
qed

lemma authenticatedPost_requests:
  "\<exists>rs. requests (bot_of (authenticatedPost p vals i)) = requests i @ rs \<and>
        list_all (\<lambda>cr. carries_credential (snd cr)) rs"
  unfolding authenticatedPost_def
  by (auto simp: Let_def getAuthenticatedRequest_def carries_credential_def
           split: option.split post_reply.split jvalue.split if_splits)

lemma frame_credentialed: "frame i j \<Longrightarrow> credentialed i \<Longrightarrow> credentialed j"
  by (auto simp: frame_def credentialed_def)

lemma Start_credentialed: "credentialed i \<Longrightarrow> credentialed (supervisor_bot (Start n i))"
proof (induction n arbitrary: i)
  case 0 then show ?case by simp
next
  case (Suc n)
  let ?i = "i\<lparr>idleContexts := Suc (idleContexts i)\<rparr>"
  have c: "credentialed ?i" using Suc.prems by (simp add: credentialed_def)
  have d: "credentialed (attempt_bot (listenAndParseEvents ?i))"
    using frame_credentialed[OF listen_frame c] .
  show ?case
  proof (cases "listenAndParseEvents ?i")
    case (Returned err j)
    with d have "credentialed j" by simp
    then have "credentialed (supervisor_bot (Start n j))" by (rule Suc.IH)
    moreover have "credentialed (j\<lparr>errChan := errChan j @ [err]\<rparr>)"
      using \<open>credentialed j\<close> by (simp add: credentialed_def)
    ultimately show ?thesis using Returned by simp
  qed (use d in simp_all)
qed

lemma utoa_digit: "n < 10 \<Longrightarrow> utoa n = [digit_char n]"
  by (simp add: utoa.simps)

lemma int_of_float64_in_range:
  assumes "- (2 ^ 63) \<le> n" "n < 2 ^ 63"
    and "0 \<le> c \<and> of_int n \<le> c \<and> c < of_int n + 1 \<or> c < 0 \<and> of_int n - 1 < c \<and> c \<le> of_int n"
  shows "int_of_float64 c = n"
proof -
  have "(if 0 \<le> c then \<lfloor>c\<rfloor> else \<lceil>c\<rceil>) = n"
    using assms(3) by (auto simp: floor_unique ceiling_unique)
  then show ?thesis using assms(1,2) by (simp add: int_of_float64_def Let_def)
qed

lemma int_of_float64_out_of_range:
  assumes "2 ^ 63 \<le> c \<or> c \<le> - (2 ^ 63) - 1"
  shows "int_of_float64 c = - (2 ^ 63)"
proof -
  from assms show ?thesis
  proof
    assume a: "2 ^ 63 \<le> c"
    then have "(2 ^ 63 :: int) \<le> \<lfloor>c\<rfloor>" by (simp add: le_floor_iff)
    moreover have "0 \<le> c" using a by (rule order_trans[rotated]) simp
    ultimately show ?thesis by (simp add: int_of_float64_def Let_def)
  next
    assume a: "c \<le> - (2 ^ 63) - 1"
    then have "\<lceil>c\<rceil> \<le> - (2 ^ 63) - 1" by (simp add: ceiling_le_iff)
    moreover have "\<not> 0 \<le> c" using a by simp
    ultimately show ?thesis by (simp add: int_of_float64_def Let_def)
  qed
qed

lemma Reply_buffer_msg:
  assumes "e ''type'' = Some (JString ''buffer_msg'')" "e ''_conn'' = Some BotPtr"
    "e ''cid'' = Some (JNumber c)" "e ''chan'' = Some (JString ch)" "session i \<noteq> []"
  shows "requests (bot_of (Reply e message i)) =
           requests i @ [(ParentContext, say_request (session i) (int_of_float64 c) ch message)]"
  using assms
  by (simp add: Reply_def Conn_def Say_def authenticatedPost_def getAuthenticatedRequest_def
        say_request_def Let_def split: post_reply.split option.split jvalue.split)

section \<open>What the dispatch of an event leaves unchanged\<close>

lemma inner_refl: "inner i i" by (simp add: inner_def)
lemma inner_trans: "inner i j \<Longrightarrow> inner j k \<Longrightarrow> inner i k" by (simp add: inner_def)
lemma inner_calls: "inner i (i\<lparr>calls := cs\<rparr>)" by (simp add: inner_def)
lemma inner_requests: "inner i (i\<lparr>requests := rs\<rparr>)" by (simp add: inner_def)

lemma chan_send_inner: "chan_send e i = Some j \<Longrightarrow> inner i j"
  by (auto simp: chan_send_def inner_def split: if_splits)

lemma push_backlog_inner: "inner i (handled_bot (push_backlog es i))"
proof (induction es i rule: push_backlog.induct)
  case (1 i) show ?case by (simp add: inner_refl)
next
  case (2 r i) show ?case by (simp add: inner_refl)
next
  case (3 e r i)
  show ?case
  proof (cases "chan_send (e(''_from_backlog'' \<mapsto> JBool True)) i")
    case None then show ?thesis by (simp add: inner_refl)
  next
    case (Some j)
    with "3.IH"[of j] chan_send_inner[OF Some] show ?thesis by (auto intro: inner_trans)
  qed
qed

lemma handleOOBInclude_inner: "inner i (handled_bot (handleOOBInclude evt i))"
proof -
  have b: "inner i (handled_bot (push_backlog es (i\<lparr>requests := rs\<rparr>)))" for es rs
    using inner_trans[OF inner_requests push_backlog_inner] .
  show ?thesis
    unfolding handleOOBInclude_def
    by (simp add: inner_refl inner_requests b Let_def
          split: option.split jvalue.split fetch_reply.split)
qed

lemma internal_inner:
  "internalMessageHandlers T = Some ih \<Longrightarrow> inner i (handled_bot (ih e i))"
  by (auto simp: internalMessageHandlers_def handleOOBInclude_inner handleIdle_def inner_refl
           split: if_splits)

lemma call_handlers_inner: "inner i (body_bot (call_handlers k ehs e i))"
proof (induction ehs arbitrary: k i)
  case Nil show ?case by (simp add: inner_refl)
next
  case (Cons eh ehs)
  show ?case
    using inner_trans[OF inner_calls Cons]
    by (simp add: Let_def inner_calls split: option.split)
qed

lemma offerUnhandled_inner: "inner i (body_bot (offerUnhandled e i))"
  by (auto simp: offerUnhandled_def inner_refl chan_send_inner split: option.split)

lemma externalDispatch_inner: "inner i (body_bot (externalDispatch e T i))"
  by (simp add: externalDispatch_def call_handlers_inner offerUnhandled_inner split: option.split)

lemma afterInternal_inner: "inner i (body_bot (afterInternal b e T i))"
  by (simp add: afterInternal_def externalDispatch_inner inner_refl)

lemma afterHandler_inner: "inner (handled_bot h) (body_bot (afterHandler h e T))"
  by (cases "(h, e, T)" rule: afterHandler.cases) (simp_all add: inner_refl afterInternal_inner)

lemma dispatch_inner: "inner i (body_bot (dispatch e i))"
proof -
  have b: "internalMessageHandlers T = Some ih \<Longrightarrow>
        inner i (body_bot (afterHandler (ih e (i\<lparr>calls := cs\<rparr>)) e T))" for T ih cs
    using inner_trans[OF inner_calls inner_trans[OF internal_inner afterHandler_inner]] by blast
  show ?thesis
    unfolding dispatch_def
    by (simp add: inner_refl afterInternal_inner b split: option.split jvalue.split)
qed

lemma loop_body_counts:
  "idleTimerResets (body_bot (loop_body l i)) = idleTimerResets i + (if is_record l then 1 else 0) \<and>
   diagnostics (body_bot (loop_body l i)) = diagnostics i @ malformed_texts [l]"
proof (cases l)
  case (Malformed s) then show ?thesis by simp
next
  case (Record r)
  from dispatch_inner[of "i\<lparr>idleTimerResets := Suc (idleTimerResets i)\<rparr>" "unmarshal r"]
  show ?thesis by (simp add: Record inner_def)
qed

lemma malformed_texts_append: "malformed_texts (xs @ ys) = malformed_texts xs @ malformed_texts ys"
  by (induction xs rule: malformed_texts.induct) simp_all

lemma scan_loop_consumed:
  "\<exists>consumed. ls = consumed @ unread (scan_loop ls i) \<and>
     idleTimerResets (exit_bot (scan_loop ls i)) = idleTimerResets i + length (filter is_record consumed) \<and>
     diagnostics (exit_bot (scan_loop ls i)) = diagnostics i @ malformed_texts consumed \<and>
     ((\<exists>x j u. scan_loop ls i = Interrupted x j u) \<longrightarrow> consumed \<noteq> [] \<and> is_record (last consumed))"
proof (induction ls arbitrary: i)
  case Nil show ?case by simp
next
  case (Cons l ls)
  note c = loop_body_counts[of l i]
  show ?case
  proof (cases "loop_body l i")
    case (Continue j)
    from Cons[of j] obtain consumed where
      k: "ls = consumed @ unread (scan_loop ls j)"
        "idleTimerResets (exit_bot (scan_loop ls j)) = idleTimerResets j + length (filter is_record consumed)"
        "diagnostics (exit_bot (scan_loop ls j)) = diagnostics j @ malformed_texts consumed"
        "(\<exists>x j' u. scan_loop ls j = Interrupted x j' u) \<longrightarrow> consumed \<noteq> [] \<and> is_record (last consumed)"
      by blast
    have m: "malformed_texts (l # consumed) = malformed_texts [l] @ malformed_texts consumed"
      using malformed_texts_append[of "[l]" consumed] by simp
    show ?thesis
      apply (rule exI[of _ "l # consumed"])
      using k c Continue m by auto
  next
    case (Interrupt x j)
    have r: "is_record l" using Interrupt by (cases l) simp_all
    show ?thesis
      apply (rule exI[of _ "[l]"])
      using c Interrupt r by simp
  qed
qed

section \<open>The handler loop, the scan loop and the supervisor\<close>







lemma loop_body_no_internal:
  "unmarshal r ''type'' = Some (JString T) \<Longrightarrow> internalMessageHandlers T = None \<Longrightarrow>
   loop_body (Record r) i =
     externalDispatch (unmarshal r) T (i\<lparr>idleTimerResets := Suc (idleTimerResets i)\<rparr>)"
  by (simp add: dispatch_def afterInternal_def)

lemma loop_body_internal:
  "unmarshal r ''type'' = Some (JString T) \<Longrightarrow> internalMessageHandlers T = Some ih \<Longrightarrow>
   loop_body (Record r) i =
     afterHandler (ih (unmarshal r)
        (i\<lparr>idleTimerResets := Suc (idleTimerResets i),
           calls := calls i @ [InternalCall (unmarshal r)]\<rparr>)) (unmarshal r) T"
  by (simp add: dispatch_def)

lemma push_backlog_calls: "calls (handled_bot (push_backlog es i)) = calls i"
proof (induction es i rule: push_backlog.induct)
  case (3 e r i)
  show ?case
    by (cases "chan_send (e(''_from_backlog'' \<mapsto> JBool True)) i")
       (auto simp: "3.IH" chan_send_def split: if_splits)
qed simp_all

lemma internal_calls:
  "internalMessageHandlers T = Some ih \<Longrightarrow> calls (handled_bot (ih e i)) = calls i"
  by (auto simp: internalMessageHandlers_def handleIdle_def handleOOBInclude_def
        push_backlog_calls Let_def
        split: if_splits option.split jvalue.split fetch_reply.split)

lemma listen_first_request:
  assumes "session i \<noteq> []"
  shows "\<exists>rs. requests (attempt_bot (listenAndParseEvents i)) =
           requests i @ (IdleContext (idleContexts i), stream_request (session i)) # rs"
proof -
  let ?i = "i\<lparr>requests := requests i @ [(IdleContext (idleContexts i), stream_request (session i))]\<rparr>"
  have "\<exists>rs. requests (exit_bot (scan_loop ls ?i)) = requests ?i @ rs" for ls
    using scan_loop_frame[of ?i ls] unfolding frame_def by blast
  then show ?thesis
    using assms
    by (auto simp: listenAndParseEvents_def getAuthenticatedRequest_def stream_request_def
          afterLoop_bot Let_def split: stream_reply.split)
qed

lemma Start_extends:
  "(case Start n i of
      Connected k \<Rightarrow> errChan k = errChan i
    | Terminated k \<Rightarrow> (\<exists>e. errChan k = errChan i @ [e])
    | Halted a \<Rightarrow> errChan (attempt_bot a) = errChan i) \<and>
   (\<exists>rs. requests (supervisor_bot (Start n i)) = requests i @ rs)"
proof (induction n arbitrary: i)
  case 0 show ?case by simp
next
  case (Suc n)
  let ?i = "i\<lparr>idleContexts := Suc (idleContexts i)\<rparr>"
  have f: "frame ?i (attempt_bot (listenAndParseEvents ?i))" by (rule listen_frame)
  then have e: "errChan (attempt_bot (listenAndParseEvents ?i)) = errChan i"
    and r: "\<exists>rs. requests (attempt_bot (listenAndParseEvents ?i)) = requests i @ rs"
    by (auto simp: frame_def)
  show ?case
  proof (cases "listenAndParseEvents ?i")
    case (Returned err j)
    with e r have ej: "errChan j = errChan i" and rj: "\<exists>rs. requests j = requests i @ rs"
      by auto
    show ?thesis
    proof (cases "\<not> parentDone j (idleContexts j) \<and> AutoReconnect j")
      case True
      then have s: "Start (Suc n) i = Start n j" using Returned by simp
      from Suc[of j, unfolded ej] rj show ?thesis unfolding s by auto
    next
      case False
      then have s: "Start (Suc n) i = Terminated (j\<lparr>errChan := errChan j @ [err]\<rparr>)"
        using Returned by auto
      show ?thesis unfolding s using ej rj by simp
    qed
  qed (use e r in auto)
qed

lemma Start_first_request:
  assumes "session i \<noteq> []"
  shows "\<exists>rs. requests (supervisor_bot (Start (Suc n) i)) =
           requests i @ (IdleContext (Suc (idleContexts i)), stream_request (session i)) # rs"
proof -
  let ?i = "i\<lparr>idleContexts := Suc (idleContexts i)\<rparr>"
  from listen_first_request[of ?i] assms obtain rs where
    r: "requests (attempt_bot (listenAndParseEvents ?i)) =
          requests i @ (IdleContext (Suc (idleContexts i)), stream_request (session i)) # rs"
    by auto
  show ?thesis
  proof (cases "listenAndParseEvents ?i")
    case (Returned err j)
    with r have rj: "requests j =
          requests i @ (IdleContext (Suc (idleContexts i)), stream_request (session i)) # rs"
      by simp
    from Start_extends[where n=n and i=j] obtain rs' where
      "requests (supervisor_bot (Start n j)) = requests j @ rs'" by blast
    then show ?thesis using Returned rj by auto
  qed (use r in auto)
qed

section \<open>Events no handler takes\<close>

text \<open>
  Claim C1, as amended. An event that reaches external dispatch with no handler
  registered for its type (a record without an internal handler gets there straight from
  the loop) is treated by \<open>DropUnhandledEvents\<close>. With the flag off it is appended to the
  event channel when there is room. When the channel is full the send waits: the bot is
  left as it was and the loop is interrupted with that send pending; tried again on the
  full channel it waits again; once the application has received one event, the send
  appends the event and the channel is full again. With the flag on the event is
  discarded whether or not there is room: the bot is left as it was, nothing waits, and
  the loop goes on. A scan started with the channel within its capacity leaves it so.
\<close>

theorem unhandled_event_offer:
  assumes "eventHandlers i T = None \<or> eventHandlers i T = Some []"
  shows "(unmarshal r ''type'' = Some (JString T) \<and> internalMessageHandlers T = None \<longrightarrow>
            loop_body (Record r) i =
              externalDispatch (unmarshal r) T (i\<lparr>idleTimerResets := Suc (idleTimerResets i)\<rparr>)) \<and>
         (\<not> DropUnhandledEvents i \<and> length (eventChan i) < eventChanCapacity \<longrightarrow>
            externalDispatch e T i = Continue (i\<lparr>eventChan := eventChan i @ [e]\<rparr>)) \<and>
         (\<not> DropUnhandledEvents i \<and> eventChanCapacity \<le> length (eventChan i) \<longrightarrow>
            externalDispatch e T i = Interrupt (Block (SendLive e)) i \<and>
            resume (SendLive e) i = Interrupt (Block (SendLive e)) i \<and>
            (\<forall>x j. length (eventChan i) = eventChanCapacity \<and> chan_recv i = Some (x, j) \<longrightarrow>
               resume (SendLive e) j = Continue (j\<lparr>eventChan := eventChan j @ [e]\<rparr>) \<and>
               length (eventChan j @ [e]) = eventChanCapacity)) \<and>
         (DropUnhandledEvents i \<longrightarrow> externalDispatch e T i = Continue i) \<and>
         (length (eventChan i) \<le> eventChanCapacity \<longrightarrow>
            length (eventChan (exit_bot (scan_loop ls i))) \<le> eventChanCapacity)"
proof -
  have d: "externalDispatch e T i = offerUnhandled e i"
    using assms by (auto simp: externalDispatch_def)
  have l: "unmarshal r ''type'' = Some (JString T) \<and> internalMessageHandlers T = None \<longrightarrow>
            loop_body (Record r) i =
              externalDispatch (unmarshal r) T (i\<lparr>idleTimerResets := Suc (idleTimerResets i)\<rparr>)"
    using loop_body_no_internal[of r T i] by blast
  have b: "length (eventChan i) \<le> eventChanCapacity \<longrightarrow>
            length (eventChan (exit_bot (scan_loop ls i))) \<le> eventChanCapacity"
    using scan_loop_frame[of i ls] by (simp add: frame_def)
  have o: "(\<not> DropUnhandledEvents i \<and> length (eventChan i) < eventChanCapacity \<longrightarrow>
            offerUnhandled e i = Continue (i\<lparr>eventChan := eventChan i @ [e]\<rparr>)) \<and>
         (\<not> DropUnhandledEvents i \<and> eventChanCapacity \<le> length (eventChan i) \<longrightarrow>
            offerUnhandled e i = Interrupt (Block (SendLive e)) i \<and>
            resume (SendLive e) i = Interrupt (Block (SendLive e)) i \<and>
            (\<forall>x j. length (eventChan i) = eventChanCapacity \<and> chan_recv i = Some (x, j) \<longrightarrow>
               resume (SendLive e) j = Continue (j\<lparr>eventChan := eventChan j @ [e]\<rparr>) \<and>
               length (eventChan j @ [e]) = eventChanCapacity)) \<and>
         (DropUnhandledEvents i \<longrightarrow> offerUnhandled e i = Continue i)"
    by (auto simp: offerUnhandled_def chan_send_def chan_recv_def split: list.splits)
  show ?thesis unfolding d using l b o by blast
qed

theorem unhandled_event_offer_witness:
  "loop_body (Record message_record) plain_bot
     = Continue (plain_bot\<lparr>idleTimerResets := 1, eventChan := [unmarshal message_record]\<rparr>) \<and>
   externalDispatch (unmarshal message_record) ''buffer_msg'' full_bot
     = Interrupt (Block (SendLive (unmarshal message_record))) full_bot \<and>
   chan_recv full_bot =
     Some (unmarshal idle_record, plain_bot\<lparr>eventChan := replicate 99 (unmarshal idle_record)\<rparr>) \<and>
   resume (SendLive (unmarshal message_record))
       (plain_bot\<lparr>eventChan := replicate 99 (unmarshal idle_record)\<rparr>)
     = Continue (plain_bot\<lparr>eventChan :=
          replicate 99 (unmarshal idle_record) @ [unmarshal message_record]\<rparr>) \<and>
   loop_body (Record message_record) dropping_bot = Continue (dropping_bot\<lparr>idleTimerResets := 1\<rparr>) \<and>
   length (eventChan (exit_bot (scan_loop mixed_lines full_bot))) \<le> eventChanCapacity"
proof -
  let ?e = "unmarshal message_record"
  let ?p = "plain_bot\<lparr>idleTimerResets := Suc (idleTimerResets plain_bot)\<rparr>"
  let ?d = "dropping_bot\<lparr>idleTimerResets := Suc (idleTimerResets dropping_bot)\<rparr>"
  note T = unhandled_event_offer
  have t: "?e ''type'' = Some (JString ''buffer_msg'') \<and> internalMessageHandlers ''buffer_msg'' = None"
    by (simp add: unmarshal_def message_record_def map_add_def internalMessageHandlers_def)
  have h1: "eventHandlers plain_bot ''buffer_msg'' = None \<or> eventHandlers plain_bot ''buffer_msg'' = Some []"
    and h1': "eventHandlers ?p ''buffer_msg'' = None \<or> eventHandlers ?p ''buffer_msg'' = Some []"
    and h2: "eventHandlers full_bot ''buffer_msg'' = None \<or> eventHandlers full_bot ''buffer_msg'' = Some []"
    and h3: "eventHandlers dropping_bot ''buffer_msg'' = None \<or> eventHandlers dropping_bot ''buffer_msg'' = Some []"
    and h3': "eventHandlers ?d ''buffer_msg'' = None \<or> eventHandlers ?d ''buffer_msg'' = Some []"
    by (simp_all add: plain_bot_def WithContext_def quiet_client_def message_record_def idle_record_def
      full_bot_def dropping_bot_def)
  have p: "\<not> DropUnhandledEvents ?p \<and> length (eventChan ?p) < eventChanCapacity"
    "eventChan plain_bot = []" "idleTimerResets plain_bot = 0" "idleTimerResets dropping_bot = 0"
    by (simp_all add: plain_bot_def WithContext_def quiet_client_def message_record_def idle_record_def
      full_bot_def dropping_bot_def eventChanCapacity_def)
  have f: "\<not> DropUnhandledEvents full_bot \<and> eventChanCapacity \<le> length (eventChan full_bot)"
    "length (eventChan full_bot) = eventChanCapacity"
    by (simp_all add: plain_bot_def WithContext_def quiet_client_def message_record_def idle_record_def
      full_bot_def dropping_bot_def eventChanCapacity_def)
  have r: "chan_recv full_bot =
     Some (unmarshal idle_record, plain_bot\<lparr>eventChan := replicate 99 (unmarshal idle_record)\<rparr>)"
  proof -
    have "replicate 100 (unmarshal idle_record)
            = unmarshal idle_record # replicate 99 (unmarshal idle_record)"
      by (simp add: replicate_Suc[symmetric] del: replicate_Suc)
    then show ?thesis by (simp add: chan_recv_def full_bot_def)
  qed
  have d: "DropUnhandledEvents ?d" by (simp add: plain_bot_def WithContext_def quiet_client_def message_record_def idle_record_def
      full_bot_def dropping_bot_def)
  have 1: "loop_body (Record message_record) plain_bot
     = Continue (plain_bot\<lparr>idleTimerResets := 1, eventChan := [?e]\<rparr>)"
  proof -
    have "loop_body (Record message_record) plain_bot = externalDispatch ?e ''buffer_msg'' ?p"
      using T[OF h1, of message_record, THEN conjunct1] t by blast
    also have "\<dots> = Continue (?p\<lparr>eventChan := eventChan ?p @ [?e]\<rparr>)"
      using T[OF h1', of message_record ?e, THEN conjunct2, THEN conjunct1] p(1) by blast
    finally show ?thesis by (simp add: p)
  qed
  have 2: "externalDispatch ?e ''buffer_msg'' full_bot = Interrupt (Block (SendLive ?e)) full_bot"
    using T[OF h2, of message_record ?e, THEN conjunct2, THEN conjunct2, THEN conjunct1] f by blast
  have 3: "resume (SendLive ?e) (plain_bot\<lparr>eventChan := replicate 99 (unmarshal idle_record)\<rparr>)
     = Continue (plain_bot\<lparr>eventChan := replicate 99 (unmarshal idle_record)\<rparr>
                  \<lparr>eventChan := eventChan (plain_bot\<lparr>eventChan := replicate 99 (unmarshal idle_record)\<rparr>) @ [?e]\<rparr>)"
    using T[OF h2, of message_record ?e, THEN conjunct2, THEN conjunct2, THEN conjunct1] f r by blast
  have 4: "loop_body (Record message_record) dropping_bot = Continue (dropping_bot\<lparr>idleTimerResets := 1\<rparr>)"
  proof -
    have "loop_body (Record message_record) dropping_bot = externalDispatch ?e ''buffer_msg'' ?d"
      using T[OF h3, of message_record, THEN conjunct1] t by blast
    also have "\<dots> = Continue ?d"
      using T[OF h3', of message_record ?e, THEN conjunct2, THEN conjunct2, THEN conjunct2, THEN conjunct1] d
      by blast
    finally show ?thesis by (simp add: p)
  qed
  have 5: "length (eventChan (exit_bot (scan_loop mixed_lines full_bot))) \<le> eventChanCapacity"
    using T[OF h2, of message_record ?e mixed_lines, THEN conjunct2, THEN conjunct2, THEN conjunct2,
            THEN conjunct2] f by simp
  show ?thesis using 1 2 r 3 4 5 by simp
qed

text \<open>
  The claim as stated (with the flag on, an event is enqueued when there is room) fails
  on an empty channel: the message is decoded, dispatched and discarded.
\<close>

theorem drop_enabled_discards_with_room_counterexample:
  "DropUnhandledEvents dropping_bot \<and>
   eventHandlers dropping_bot ''buffer_msg'' = None \<and>
   internalMessageHandlers ''buffer_msg'' = None \<and>
   unmarshal message_record ''type'' = Some (JString ''buffer_msg'') \<and>
   length (eventChan dropping_bot) < eventChanCapacity \<and>
   loop_body (Record message_record) dropping_bot = Continue (dropping_bot\<lparr>idleTimerResets := 1\<rparr>) \<and>
   eventChan (dropping_bot\<lparr>idleTimerResets := 1\<rparr>) = []"
  by (simp add: plain_bot_def WithContext_def quiet_client_def message_record_def idle_record_def
      full_bot_def dropping_bot_def run_defs map_add_def)

section \<open>Internal handlers and visibility\<close>

text \<open>
  Claim C2, as amended. For a record of the live stream whose \<open>type\<close> is the text \<open>T\<close>:
  without an internal handler for \<open>T\<close> the event goes to external dispatch. With one, that
  handler is called first (its call is the first new entry of the call log). The event
  then goes to external dispatch exactly when the handler returned no error and
  \<open>YieldInternalEvents\<close> is set; when it returned no error and the flag is off, the loop
  goes on from the handler's bot; when it returned an error, the body returns that
  error. Whenever the flag is off, or the handler did not return without error, no
  registered handler is called for the event and the event channel is as the internal
  handler left it.
\<close>

theorem internal_handler_first_then_visibility:
  assumes "unmarshal r ''type'' = Some (JString T)"
  shows
   "(internalMessageHandlers T = None \<longrightarrow>
       loop_body (Record r) i =
         externalDispatch (unmarshal r) T (i\<lparr>idleTimerResets := Suc (idleTimerResets i)\<rparr>)) \<and>
    (\<forall>ih h. internalMessageHandlers T = Some ih \<and>
        h = ih (unmarshal r) (i\<lparr>idleTimerResets := Suc (idleTimerResets i),
                               calls := calls i @ [InternalCall (unmarshal r)]\<rparr>) \<longrightarrow>
       (\<exists>cs. calls (body_bot (loop_body (Record r) i)) = calls i @ InternalCall (unmarshal r) # cs) \<and>
       (\<forall>j. h = Handled None j \<and> YieldInternalEvents i \<longrightarrow>
            loop_body (Record r) i = externalDispatch (unmarshal r) T j) \<and>
       (\<forall>j. h = Handled None j \<and> \<not> YieldInternalEvents i \<longrightarrow>
            loop_body (Record r) i = Continue j) \<and>
       (\<forall>err j. h = Handled (Some err) j \<longrightarrow>
            loop_body (Record r) i = Interrupt (Return err) j) \<and>
       (\<not> YieldInternalEvents i \<or> (\<forall>j. h \<noteq> Handled None j) \<longrightarrow>
            calls (body_bot (loop_body (Record r) i)) = calls i @ [InternalCall (unmarshal r)] \<and>
            eventChan (body_bot (loop_body (Record r) i)) = eventChan (handled_bot h)))"
proof (intro conjI impI allI)
  assume "internalMessageHandlers T = None"
  with assms show "loop_body (Record r) i =
         externalDispatch (unmarshal r) T (i\<lparr>idleTimerResets := Suc (idleTimerResets i)\<rparr>)"
    by (rule loop_body_no_internal)
next
  fix ih h
  let ?i = "i\<lparr>idleTimerResets := Suc (idleTimerResets i),
              calls := calls i @ [InternalCall (unmarshal r)]\<rparr>"
  assume a: "internalMessageHandlers T = Some ih \<and> h = ih (unmarshal r) ?i"
  then have b: "loop_body (Record r) i = afterHandler h (unmarshal r) T"
    using loop_body_internal[OF assms, of ih i] by simp
  have f: "frame ?i (handled_bot h)" using a internal_frame by blast
  have c: "calls (handled_bot h) = calls i @ [InternalCall (unmarshal r)]"
    using a internal_calls[of T ih "unmarshal r" ?i] by simp
  have y: "YieldInternalEvents (handled_bot h) = YieldInternalEvents i"
    using f by (simp add: frame_def)
  show "\<exists>cs. calls (body_bot (loop_body (Record r) i)) = calls i @ InternalCall (unmarshal r) # cs"
    unfolding b using afterHandler_frame[of h "unmarshal r" T] c by (auto simp: frame_def)
  {
    fix j assume "h = Handled None j \<and> YieldInternalEvents i"
    then show "loop_body (Record r) i = externalDispatch (unmarshal r) T j"
      unfolding b using y by (simp add: afterInternal_def)
  }
  {
    fix j assume "h = Handled None j \<and> \<not> YieldInternalEvents i"
    then show "loop_body (Record r) i = Continue j"
      unfolding b using y by (simp add: afterInternal_def)
  }
  {
    fix err j assume "h = Handled (Some err) j"
    then show "loop_body (Record r) i = Interrupt (Return err) j"
      unfolding b by simp
  }
  {
    assume n: "\<not> YieldInternalEvents i \<or> (\<forall>j. h \<noteq> Handled None j)"
    have "body_bot (afterHandler h (unmarshal r) T) = handled_bot h"
    proof (cases h)
      case (Handled err j)
      show ?thesis
      proof (cases err)
        case None
        with n Handled y show ?thesis by (simp add: afterInternal_def)
      next
        case (Some e') with Handled show ?thesis by simp
      qed
    qed simp_all
    then show "calls (body_bot (loop_body (Record r) i)) = calls i @ [InternalCall (unmarshal r)]"
       "eventChan (body_bot (loop_body (Record r) i)) = eventChan (handled_bot h)"
      unfolding b using c by simp_all
  }
qed

theorem internal_handler_first_then_visibility_witness:
  "loop_body (Record message_record) plain_bot =
     Continue (plain_bot\<lparr>idleTimerResets := 1, eventChan := [unmarshal message_record]\<rparr>) \<and>
   loop_body (Record idle_record) plain_bot =
     Continue (plain_bot\<lparr>idleTimerResets := 1, calls := [InternalCall (unmarshal idle_record)]\<rparr>) \<and>
   loop_body (Record idle_record) (plain_bot\<lparr>YieldInternalEvents := True\<rparr>) =
     Continue (plain_bot\<lparr>YieldInternalEvents := True, idleTimerResets := 1,
                 calls := [InternalCall (unmarshal idle_record)],
                 eventChan := [unmarshal idle_record]\<rparr>) \<and>
   loop_body (Record include_record) yielding_bot =
     Interrupt (Return (CouldNotFetchOOBInclude ''timeout''))
       (handled_bot (handleOOBInclude (unmarshal include_record)
          (yielding_bot\<lparr>idleTimerResets := 1,
             calls := [InternalCall (unmarshal include_record)]\<rparr>)))"
proof -
  note T = internal_handler_first_then_visibility
  have tm: "unmarshal message_record ''type'' = Some (JString ''buffer_msg'')"
    and ti: "unmarshal idle_record ''type'' = Some (JString ''idle'')"
    and tb: "unmarshal include_record ''type'' = Some (JString ''oob_include'')"
    by (simp_all add: plain_bot_def WithContext_def quiet_client_def message_record_def idle_record_def
      include_record_def yielding_bot_def failing_client_def accept_def
      RegisterMessageHandler_def unmarshal_def map_add_def)
  have n: "internalMessageHandlers ''buffer_msg'' = None"
    and hi: "internalMessageHandlers ''idle'' = Some handleIdle"
    and hb: "internalMessageHandlers ''oob_include'' = Some handleOOBInclude"
    by (simp_all add: internalMessageHandlers_def)
  have p: "idleTimerResets plain_bot = 0" "calls plain_bot = []" "\<not> YieldInternalEvents plain_bot"
    "idleTimerResets yielding_bot = 0" "calls yielding_bot = []"
    by (simp_all add: plain_bot_def WithContext_def quiet_client_def message_record_def idle_record_def
      include_record_def yielding_bot_def failing_client_def accept_def
      RegisterMessageHandler_def)
  have 1: "loop_body (Record message_record) plain_bot =
     Continue (plain_bot\<lparr>idleTimerResets := 1, eventChan := [unmarshal message_record]\<rparr>)"
    using T[OF tm, of plain_bot, THEN conjunct1, THEN mp, OF n]
    by (simp add: plain_bot_def WithContext_def quiet_client_def message_record_def idle_record_def
      include_record_def yielding_bot_def failing_client_def accept_def
      RegisterMessageHandler_def externalDispatch_def offerUnhandled_def chan_send_def
          eventChanCapacity_def)
  have 2: "loop_body (Record idle_record) plain_bot =
     Continue (plain_bot\<lparr>idleTimerResets := 1, calls := [InternalCall (unmarshal idle_record)]\<rparr>)"
    using T[OF ti, of plain_bot, THEN conjunct2, rule_format, of handleIdle, OF conjI[OF hi refl],
            THEN conjunct2, THEN conjunct2, THEN conjunct1, rule_format,
            of "plain_bot\<lparr>idleTimerResets := 1, calls := [InternalCall (unmarshal idle_record)]\<rparr>"]
    by (simp add: p handleIdle_def)
  let ?y = "plain_bot\<lparr>YieldInternalEvents := True\<rparr>"
  have 3: "loop_body (Record idle_record) ?y =
     Continue (plain_bot\<lparr>YieldInternalEvents := True, idleTimerResets := 1,
                 calls := [InternalCall (unmarshal idle_record)],
                 eventChan := [unmarshal idle_record]\<rparr>)"
    using T[OF ti, of ?y, THEN conjunct2, rule_format, of handleIdle, OF conjI[OF hi refl],
            THEN conjunct2, THEN conjunct1, rule_format,
            of "?y\<lparr>idleTimerResets := 1, calls := [InternalCall (unmarshal idle_record)]\<rparr>"]
    by (simp add: p handleIdle_def plain_bot_def WithContext_def quiet_client_def message_record_def idle_record_def
      include_record_def yielding_bot_def failing_client_def accept_def
      RegisterMessageHandler_def externalDispatch_def offerUnhandled_def
          chan_send_def eventChanCapacity_def)
  have 4: "loop_body (Record include_record) yielding_bot =
     Interrupt (Return (CouldNotFetchOOBInclude ''timeout''))
       (handled_bot (handleOOBInclude (unmarshal include_record)
          (yielding_bot\<lparr>idleTimerResets := 1,
             calls := [InternalCall (unmarshal include_record)]\<rparr>)))"
    using T[OF tb, of yielding_bot, THEN conjunct2, rule_format, of handleOOBInclude,
            OF conjI[OF hb refl],
            THEN conjunct2, THEN conjunct2, THEN conjunct2, THEN conjunct1, rule_format,
            of "CouldNotFetchOOBInclude ''timeout''"
               "handled_bot (handleOOBInclude (unmarshal include_record)
                  (yielding_bot\<lparr>idleTimerResets := 1,
                     calls := [InternalCall (unmarshal include_record)]\<rparr>))"]
    by (simp add: p handleOOBInclude_def getAuthenticatedRequest_def Let_def plain_bot_def WithContext_def quiet_client_def message_record_def idle_record_def
      include_record_def yielding_bot_def failing_client_def accept_def
      RegisterMessageHandler_def
          unmarshal_def map_add_def)
  show ?thesis using 1 2 3 4 by simp
qed

text \<open>
  The claim as stated (forwarded if and only if there is no internal handler or the flag
  is set) fails with the flag set when the internal handler returns an error: the
  handler registered for \<open>oob_include\<close> is not called and nothing is enqueued.
\<close>

theorem yielded_event_not_forwarded_after_error_counterexample:
  "YieldInternalEvents yielding_bot \<and>
   unmarshal include_record ''type'' = Some (JString ''oob_include'') \<and>
   eventHandlers yielding_bot ''oob_include'' = Some [accept] \<and>
   loop_body (Record include_record) yielding_bot =
     Interrupt (Return (CouldNotFetchOOBInclude ''timeout''))
       (body_bot (loop_body (Record include_record) yielding_bot)) \<and>
   calls (body_bot (loop_body (Record include_record) yielding_bot)) =
     [InternalCall (unmarshal include_record)] \<and>
   eventChan (body_bot (loop_body (Record include_record) yielding_bot)) = []"
  by (simp add: plain_bot_def WithContext_def quiet_client_def message_record_def idle_record_def
      include_record_def yielding_bot_def failing_client_def accept_def
      RegisterMessageHandler_def run_defs map_add_def)

section \<open>The backlog handler\<close>

text \<open>
  Claim C3 says that the backlog handler marks each fetched event and hands it to the
  same dispatch as a live event. At this input it does not. The bot drops unhandled
  events and has a handler for \<open>buffer_msg\<close>: a live \<open>buffer_msg\<close> goes to that handler
  and a live \<open>idle\<close> to its internal handler, and neither reaches the event channel. The
  same two events, fetched for an \<open>oob_include\<close> event, are sent to the event channel
  with the backlog flag set; no handler is called for them, and they carry no \<open>_conn\<close>,
  so that \<open>Conn\<close> panics on them.
\<close>

theorem backlog_events_bypass_dispatch:
  "calls (body_bot (loop_body (Record message_record) backlog_bot)) =
     [ExternalCall 0 (unmarshal message_record)] \<and>
   eventChan (body_bot (loop_body (Record message_record) backlog_bot)) = [] \<and>
   calls (body_bot (loop_body (Record idle_record) backlog_bot)) =
     [InternalCall (unmarshal idle_record)] \<and>
   eventChan (body_bot (loop_body (Record idle_record) backlog_bot)) = [] \<and>
   fetch (HTTPClient backlog_bot)
     \<lparr> req_method = ''GET'', req_url = ''https://www.irccloud.com/chat/backlog'',
       req_cookie = ''session=secret'', req_content_type = None, req_form = Map.empty \<rparr>
     = FetchEvents [Some message_record, Some idle_record] \<and>
   calls (body_bot (loop_body (Record include_record) backlog_bot)) =
     [InternalCall (unmarshal include_record)] \<and>
   eventChan (body_bot (loop_body (Record include_record) backlog_bot)) =
     [message_record(''_from_backlog'' \<mapsto> JBool True),
      idle_record(''_from_backlog'' \<mapsto> JBool True)] \<and>
   Conn (message_record(''_from_backlog'' \<mapsto> JBool True)) = AssertionPanic"
  by (simp add: backlog_bot_def backlog_client_def WithContext_def quiet_client_def
      message_record_def idle_record_def include_record_def RegisterMessageHandler_def
      run_defs map_add_def accept_def Conn_def)

section \<open>The reserved fields of a live event\<close>

text \<open>
  Claim C4 says that a live event carries the connection and the backlog flag \<open>false\<close>.
  At this input it carries the connection only: the live message is queued with \<open>_conn\<close>
  set and without \<open>_from_backlog\<close>, and \<open>FromBacklog\<close> on it panics. The same message as
  the backlog handler marks it does carry the flag \<open>true\<close>.
\<close>

theorem live_event_has_no_backlog_flag:
  "loop_body (Record message_record) plain_bot =
     Continue (plain_bot\<lparr>idleTimerResets := 1, eventChan := [unmarshal message_record]\<rparr>) \<and>
   Conn (unmarshal message_record) = Val () \<and>
   unmarshal message_record ''_from_backlog'' = None \<and>
   FromBacklog (unmarshal message_record) = AssertionPanic \<and>
   FromBacklog (message_record(''_from_backlog'' \<mapsto> JBool True)) = Val True"
  by (simp add: plain_bot_def WithContext_def quiet_client_def message_record_def run_defs
      map_add_def Conn_def FromBacklog_def)

section \<open>Replying to an event\<close>

text \<open>
  Claim C5, as amended. \<open>Reply\<close> on an event whose \<open>type\<close> is a text other than
  \<open>buffer_msg\<close> returns the error naming that type and leaves the bot as it was, so no
  request is sent. On an event whose \<open>type\<close> is missing or is not a text it panics in
  the type assertion of the error message, again with nothing sent; it does not return
  an error. On a \<open>buffer_msg\<close> event that carries the connection, a numeric \<open>cid\<close> and a
  text \<open>chan\<close>, with a session present, it hands exactly one request to the HTTP
  client: the post to \<open>/chat/say\<close> with that channel, the message and a connection
  identifier. The identifier is the integer \<open>n\<close> that \<open>cid\<close> has when its fraction is dropped
  (\<open>n \<le> cid < n + 1\<close> for a \<open>cid\<close> that is not negative, \<open>n - 1 < cid \<le> n\<close> for a negative
  one), provided \<open>n\<close> is a 64-bit integer; for a \<open>cid\<close> of \<open>2 ^ 63\<close> or more, or of
  \<open>- (2 ^ 63) - 1\<close> or less, it is the least 64-bit integer.
\<close>

theorem Reply_outcomes:
  "(\<forall>t. e ''type'' = Some (JString t) \<and> t \<noteq> ''buffer_msg'' \<longrightarrow>
        Reply e message i = Returns (Some (CannotReplyToType t)) i) \<and>
   ((\<forall>t. e ''type'' \<noteq> Some (JString t)) \<longrightarrow> Reply e message i = Panics i) \<and>
   (e ''type'' = Some (JString ''buffer_msg'') \<and> e ''_conn'' = Some BotPtr \<and>
    e ''cid'' = Some (JNumber c) \<and> e ''chan'' = Some (JString ch) \<and> session i \<noteq> [] \<longrightarrow>
      (\<forall>n. - (2 ^ 63) \<le> n \<and> n < 2 ^ 63 \<and>
           (0 \<le> c \<and> of_int n \<le> c \<and> c < of_int n + 1 \<or>
            c < 0 \<and> of_int n - 1 < c \<and> c \<le> of_int n) \<longrightarrow>
         requests (bot_of (Reply e message i)) =
           requests i @ [(ParentContext, say_request (session i) n ch message)]) \<and>
      (2 ^ 63 \<le> c \<or> c \<le> - (2 ^ 63) - 1 \<longrightarrow>
         requests (bot_of (Reply e message i)) =
           requests i @ [(ParentContext, say_request (session i) (- (2 ^ 63)) ch message)]))"
proof (intro conjI impI allI)
  fix t assume "e ''type'' = Some (JString t) \<and> t \<noteq> ''buffer_msg''"
  then show "Reply e message i = Returns (Some (CannotReplyToType t)) i"
    by (simp add: Reply_def)
next
  assume "\<forall>t. e ''type'' \<noteq> Some (JString t)"
  then show "Reply e message i = Panics i"
    by (auto simp: Reply_def split: option.split jvalue.split)
next
  fix n
  assume a: "e ''type'' = Some (JString ''buffer_msg'') \<and> e ''_conn'' = Some BotPtr \<and>
    e ''cid'' = Some (JNumber c) \<and> e ''chan'' = Some (JString ch) \<and> session i \<noteq> []"
    and b: "- (2 ^ 63) \<le> n \<and> n < 2 ^ 63 \<and>
           (0 \<le> c \<and> of_int n \<le> c \<and> c < of_int n + 1 \<or>
            c < 0 \<and> of_int n - 1 < c \<and> c \<le> of_int n)"
  have "int_of_float64 c = n" using b int_of_float64_in_range[of n c] by blast
  then show "requests (bot_of (Reply e message i)) =
           requests i @ [(ParentContext, say_request (session i) n ch message)]"
    using a Reply_buffer_msg[of e c ch i message] by simp
next
  assume a: "e ''type'' = Some (JString ''buffer_msg'') \<and> e ''_conn'' = Some BotPtr \<and>
    e ''cid'' = Some (JNumber c) \<and> e ''chan'' = Some (JString ch) \<and> session i \<noteq> []"
    and b: "2 ^ 63 \<le> c \<or> c \<le> - (2 ^ 63) - 1"
  have "int_of_float64 c = - (2 ^ 63)" using b by (rule int_of_float64_out_of_range)
  then show "requests (bot_of (Reply e message i)) =
           requests i @ [(ParentContext, say_request (session i) (- (2 ^ 63)) ch message)]"
    using a Reply_buffer_msg[of e c ch i message] by simp
qed

theorem Reply_outcomes_witness:
  "Reply (unmarshal [''type'' \<mapsto> JString ''idle'']) ''ohai!'' plain_bot
     = Returns (Some (CannotReplyToType ''idle'')) plain_bot \<and>
   Reply (unmarshal [''type'' \<mapsto> JNumber 1]) ''ohai!'' plain_bot = Panics plain_bot \<and>
   requests (bot_of (Reply (unmarshal message_record) ''ohai!'' plain_bot)) =
     [(ParentContext,
       \<lparr> req_method = ''POST'', req_url = ''https://www.irccloud.com/chat/say'',
         req_cookie = ''session=secret'',
         req_content_type = Some ''application/x-www-form-urlencoded'',
         req_form = [''cid'' \<mapsto> ''2'', ''to'' \<mapsto> ''#mychannel'',
                     ''msg'' \<mapsto> ''ohai!'', ''session'' \<mapsto> ''secret''] \<rparr>)] \<and>
   map (\<lambda>cr. req_form (snd cr) ''cid'')
     (requests (bot_of (Reply ((unmarshal message_record)(''cid'' \<mapsto> JNumber (- 241 / 2)))
        ''ohai!'' plain_bot))) = [Some ''-120''] \<and>
   map (\<lambda>cr. req_form (snd cr) ''cid'')
     (requests (bot_of (Reply ((unmarshal message_record)(''cid'' \<mapsto> JNumber (10 ^ 19)))
        ''ohai!'' plain_bot))) = [Some ''-9223372036854775808'']"
proof -
  note T = Reply_outcomes
  let ?m = "unmarshal message_record"
  let ?neg = "?m(''cid'' \<mapsto> JNumber (- 241 / 2))"
  let ?big = "?m(''cid'' \<mapsto> JNumber (10 ^ 19))"
  have a: "unmarshal [''type'' \<mapsto> JString ''idle''] ''type'' = Some (JString ''idle'') \<and>
           ''idle'' \<noteq> ''buffer_msg''"
    by (simp add: unmarshal_def)
  have b: "\<forall>t. unmarshal [''type'' \<mapsto> JNumber 1] ''type'' \<noteq> Some (JString t)"
    by (simp add: unmarshal_def)
  have c: "?m ''type'' = Some (JString ''buffer_msg'') \<and> ?m ''_conn'' = Some BotPtr \<and>
           ?m ''cid'' = Some (JNumber 2) \<and> ?m ''chan'' = Some (JString ''#mychannel'') \<and>
           session plain_bot \<noteq> []"
    and cn: "?neg ''type'' = Some (JString ''buffer_msg'') \<and> ?neg ''_conn'' = Some BotPtr \<and>
           ?neg ''cid'' = Some (JNumber (- 241 / 2)) \<and>
           ?neg ''chan'' = Some (JString ''#mychannel'') \<and> session plain_bot \<noteq> []"
    and cb: "?big ''type'' = Some (JString ''buffer_msg'') \<and> ?big ''_conn'' = Some BotPtr \<and>
           ?big ''cid'' = Some (JNumber (10 ^ 19)) \<and>
           ?big ''chan'' = Some (JString ''#mychannel'') \<and> session plain_bot \<noteq> []"
    by (simp_all add: unmarshal_def message_record_def map_add_def plain_bot_def WithContext_def)
  have r2: "- (2 ^ 63) \<le> (2::int) \<and> (2::int) < 2 ^ 63 \<and>
           (0 \<le> (2::rat) \<and> of_int 2 \<le> (2::rat) \<and> (2::rat) < of_int 2 + 1 \<or>
            (2::rat) < 0 \<and> of_int 2 - 1 < (2::rat) \<and> (2::rat) \<le> of_int 2)"
    by simp
  have rn: "- (2 ^ 63) \<le> (- 120::int) \<and> (- 120::int) < 2 ^ 63 \<and>
           (0 \<le> (- 241 / 2::rat) \<and> of_int (- 120) \<le> (- 241 / 2::rat) \<and>
              (- 241 / 2::rat) < of_int (- 120) + 1 \<or>
            (- 241 / 2::rat) < 0 \<and> of_int (- 120) - 1 < (- 241 / 2::rat) \<and>
              (- 241 / 2::rat) \<le> of_int (- 120))"
    by simp
  have rb: "2 ^ 63 \<le> (10 ^ 19 :: rat) \<or> (10 ^ 19 :: rat) \<le> - (2 ^ 63) - 1"
    by simp
  have d: "Itoa 2 = ''2''" "Itoa (- 120) = ''-120''"
    "Itoa (- 9223372036854775808) = ''-9223372036854775808''"
    by (simp_all add: Itoa_def utoa.simps digit_char_def)
  have s: "session plain_bot = ''secret''" "requests plain_bot = []"
    by (simp_all add: plain_bot_def WithContext_def)
  from T[of "unmarshal [''type'' \<mapsto> JString ''idle'']" "''ohai!''" plain_bot] a
  have 1: "Reply (unmarshal [''type'' \<mapsto> JString ''idle'']) ''ohai!'' plain_bot
     = Returns (Some (CannotReplyToType ''idle'')) plain_bot"
    by blast
  from T[of "unmarshal [''type'' \<mapsto> JNumber 1]" "''ohai!''" plain_bot] b
  have 2: "Reply (unmarshal [''type'' \<mapsto> JNumber 1]) ''ohai!'' plain_bot = Panics plain_bot"
    by blast
  have 3: "requests (bot_of (Reply ?m ''ohai!'' plain_bot)) =
        requests plain_bot @ [(ParentContext, say_request (session plain_bot) 2 ''#mychannel'' ''ohai!'')]"
    using T[of ?m "''ohai!''" plain_bot 2 "''#mychannel''", THEN conjunct2, THEN conjunct2,
            THEN mp, OF c, THEN conjunct1, rule_format, OF r2] .
  have 4: "requests (bot_of (Reply ?neg ''ohai!'' plain_bot)) =
        requests plain_bot @ [(ParentContext, say_request (session plain_bot) (- 120) ''#mychannel'' ''ohai!'')]"
    using T[of ?neg "''ohai!''" plain_bot "- 241 / 2" "''#mychannel''", THEN conjunct2,
            THEN conjunct2, THEN mp, OF cn, THEN conjunct1, rule_format, OF rn] .
  have 5: "requests (bot_of (Reply ?big ''ohai!'' plain_bot)) =
        requests plain_bot @
          [(ParentContext, say_request (session plain_bot) (- (2 ^ 63)) ''#mychannel'' ''ohai!'')]"
    using T[of ?big "''ohai!''" plain_bot "10 ^ 19" "''#mychannel''", THEN conjunct2,
            THEN conjunct2, THEN mp, OF cb, THEN conjunct2, THEN mp, OF rb] .
  show ?thesis
    unfolding 3 4 5 using 1 2 by (simp add: s say_request_def d)
qed

text \<open>
  The claim as stated fails for an event without a \<open>type\<close>: \<open>Reply\<close> panics instead of
  returning the error.
\<close>

theorem Reply_missing_type_counterexample:
  "unmarshal [''cid'' \<mapsto> JNumber 2] ''type'' = None \<and>
   Reply (unmarshal [''cid'' \<mapsto> JNumber 2]) ''ohai!'' plain_bot = Panics plain_bot"
  by (simp add: Reply_def unmarshal_def map_add_def)

section \<open>Malformed lines\<close>

text \<open>
  Claim C6, as amended. A malformed line is skipped with its diagnostic and the loop goes
  on. Of the lines a scan has read, as many events have entered dispatch as there are
  records among them (each resets the idle timer once before it is dispatched), and the
  new diagnostics are the texts of the malformed ones in order. Lines are left unread
  only when the dispatch of a record leaves the loop: the last line read is then a
  record, so no malformed line ends the scan. A scan that reaches the end of the stream
  has dispatched exactly as many events as the stream has records.
\<close>

theorem malformed_lines_are_skipped:
  "scan_loop (Malformed s # ls) i = scan_loop ls (i\<lparr>diagnostics := diagnostics i @ [s]\<rparr>) \<and>
   (\<exists>consumed. ls = consumed @ unread (scan_loop ls i) \<and>
      idleTimerResets (exit_bot (scan_loop ls i)) =
        idleTimerResets i + length (filter is_record consumed) \<and>
      diagnostics (exit_bot (scan_loop ls i)) = diagnostics i @ malformed_texts consumed \<and>
      ((\<exists>x j u. scan_loop ls i = Interrupted x j u) \<longrightarrow>
         consumed \<noteq> [] \<and> is_record (last consumed))) \<and>
   (\<forall>j. scan_loop ls i = ScanEnded j \<longrightarrow>
      idleTimerResets j = idleTimerResets i + length (filter is_record ls) \<and>
      diagnostics j = diagnostics i @ malformed_texts ls)"
proof (intro conjI allI impI)
  show "scan_loop (Malformed s # ls) i = scan_loop ls (i\<lparr>diagnostics := diagnostics i @ [s]\<rparr>)"
    by simp
  show "\<exists>consumed. ls = consumed @ unread (scan_loop ls i) \<and>
      idleTimerResets (exit_bot (scan_loop ls i)) =
        idleTimerResets i + length (filter is_record consumed) \<and>
      diagnostics (exit_bot (scan_loop ls i)) = diagnostics i @ malformed_texts consumed \<and>
      ((\<exists>x j u. scan_loop ls i = Interrupted x j u) \<longrightarrow>
         consumed \<noteq> [] \<and> is_record (last consumed))"
    by (rule scan_loop_consumed)
  fix j assume e: "scan_loop ls i = ScanEnded j"
  from scan_loop_consumed[of ls i] e
  show "idleTimerResets j = idleTimerResets i + length (filter is_record ls)"
    and "diagnostics j = diagnostics i @ malformed_texts ls"
    by auto
qed

theorem malformed_lines_are_skipped_witness:
  "scan_loop mixed_lines plain_bot =
     ScanEnded (plain_bot\<lparr>idleTimerResets := 2,
        calls := [InternalCall (unmarshal idle_record)],
        diagnostics := [''{oops'', ''[]''],
        eventChan := [unmarshal message_record]\<rparr>) \<and>
   length (filter is_record mixed_lines) = 2 \<and>
   malformed_texts mixed_lines = [''{oops'', ''[]''] \<and>
   idleTimerResets (plain_bot\<lparr>idleTimerResets := 2,
        calls := [InternalCall (unmarshal idle_record)],
        diagnostics := [''{oops'', ''[]''],
        eventChan := [unmarshal message_record]\<rparr>)
     = idleTimerResets plain_bot + length (filter is_record mixed_lines) \<and>
   scan_loop [Malformed ''{'', Record message_record, Record idle_record] handling_bot =
     Interrupted (Return (HandlerError ''rejected''))
       (handling_bot\<lparr>idleTimerResets := 1,
           calls := [ExternalCall 0 (unmarshal message_record),
                     ExternalCall 1 (unmarshal message_record)],
           diagnostics := [''{'']\<rparr>)
       [Record idle_record] \<and>
   idleTimerResets (exit_bot
       (scan_loop [Malformed ''{'', Record message_record, Record idle_record] handling_bot))
     = idleTimerResets handling_bot
       + length (filter is_record [Malformed ''{'', Record message_record]) \<and>
   diagnostics (exit_bot
       (scan_loop [Malformed ''{'', Record message_record, Record idle_record] handling_bot))
     = diagnostics handling_bot @ malformed_texts [Malformed ''{'', Record message_record]"
proof -
  let ?j = "plain_bot\<lparr>idleTimerResets := 2,
        calls := [InternalCall (unmarshal idle_record)],
        diagnostics := [''{oops'', ''[]''],
        eventChan := [unmarshal message_record]\<rparr>"
  let ?ls = "[Malformed ''{'', Record message_record, Record idle_record]"
  let ?k = "handling_bot\<lparr>idleTimerResets := 1,
           calls := [ExternalCall 0 (unmarshal message_record),
                     ExternalCall 1 (unmarshal message_record)],
           diagnostics := [''{'']\<rparr>"
  note T = malformed_lines_are_skipped
  have s: "scan_loop mixed_lines plain_bot = ScanEnded ?j"
    by (simp add: mixed_lines_def plain_bot_def WithContext_def quiet_client_def message_record_def idle_record_def
      handling_bot_def register_in_order_def accept_def reject_def refuse_def
      RegisterMessageHandler_def run_defs map_add_def)
  from T[of "''x''" mixed_lines plain_bot, THEN conjunct2, THEN conjunct2, rule_format, OF s]
  have 1: "idleTimerResets ?j = idleTimerResets plain_bot + length (filter is_record mixed_lines)"
    by blast
  have 2: "length (filter is_record mixed_lines) = 2"
    "malformed_texts mixed_lines = [''{oops'', ''[]'']"
    by (simp_all add: mixed_lines_def)
  have i: "scan_loop ?ls handling_bot = Interrupted (Return (HandlerError ''rejected'')) ?k [Record idle_record]"
    by (simp add: plain_bot_def WithContext_def quiet_client_def message_record_def idle_record_def
      handling_bot_def register_in_order_def accept_def reject_def refuse_def
      RegisterMessageHandler_def run_defs map_add_def)
  from T[of "''x''" ?ls handling_bot, THEN conjunct2, THEN conjunct1]
  obtain consumed where
    c: "?ls = consumed @ unread (scan_loop ?ls handling_bot)"
       "idleTimerResets (exit_bot (scan_loop ?ls handling_bot)) =
          idleTimerResets handling_bot + length (filter is_record consumed)"
       "diagnostics (exit_bot (scan_loop ?ls handling_bot)) =
          diagnostics handling_bot @ malformed_texts consumed"
    by blast
  from c(1) have "consumed = [Malformed ''{'', Record message_record]"
    unfolding i by (simp add: append_eq_Cons_conv Cons_eq_append_conv)
  with c have 3: "idleTimerResets (exit_bot (scan_loop ?ls handling_bot)) =
          idleTimerResets handling_bot + length (filter is_record [Malformed ''{'', Record message_record])"
    "diagnostics (exit_bot (scan_loop ?ls handling_bot)) =
          diagnostics handling_bot @ malformed_texts [Malformed ''{'', Record message_record]"
    by simp_all
  show ?thesis using s 1 2 i 3 by (simp del: scan_loop.simps)
qed

text \<open>
  The claim as stated, for every sequence of lines, fails when the dispatch of a record
  leaves the loop: of three lines with two records, the second line's record is
  dispatched, its second handler returns an error, and the third line's record is never
  read. One event has entered dispatch where the stream has two records.
\<close>

theorem records_after_handler_error_counterexample:
  "length (filter is_record [Malformed ''{'', Record message_record, Record idle_record]) = 2 \<and>
   idleTimerResets handling_bot = 0 \<and> calls handling_bot = [] \<and>
   scan_loop [Malformed ''{'', Record message_record, Record idle_record] handling_bot =
     Interrupted (Return (HandlerError ''rejected''))
       (handling_bot\<lparr>idleTimerResets := 1,
           calls := [ExternalCall 0 (unmarshal message_record),
                     ExternalCall 1 (unmarshal message_record)],
           diagnostics := [''{'']\<rparr>)
       [Record idle_record] \<and>
   idleTimerResets (exit_bot
       (scan_loop [Malformed ''{'', Record message_record, Record idle_record] handling_bot)) = 1 \<and>
   calls (attempt_bot (listenAndParseEvents
       (handling_bot\<lparr>HTTPClient := quiet_client\<lparr>stream :=
          (\<lambda>n r. Stream [Malformed ''{'', Record message_record, Record idle_record] None)\<rparr>\<rparr>)))
     = [ExternalCall 0 (unmarshal message_record), ExternalCall 1 (unmarshal message_record)] \<and>
   idleTimerResets (attempt_bot (listenAndParseEvents
       (handling_bot\<lparr>HTTPClient := quiet_client\<lparr>stream :=
          (\<lambda>n r. Stream [Malformed ''{'', Record message_record, Record idle_record] None)\<rparr>\<rparr>)))
     = 1"
  by (simp add: plain_bot_def WithContext_def quiet_client_def message_record_def idle_record_def
      handling_bot_def register_in_order_def accept_def reject_def refuse_def
      RegisterMessageHandler_def listenAndParseEvents_def stream_request_def run_defs map_add_def)

section \<open>Registered handlers and their errors\<close>



section \<open>Reconnecting and the terminal error\<close>

text \<open>
  Claim C8. When a stream attempt returns: if the parent context is not cancelled and
  \<open>AutoReconnect\<close> is set, \<open>Start\<close> runs again from the bot the attempt left, nothing is
  handed to the error channel, and the next attempt opens the stream under a new idle
  context (created with its timer by that call of \<open>Start\<close>); otherwise the attempt's
  error is handed to the error channel, \<open>Err\<close> yields it, and a second \<open>Err\<close> finds
  nothing. Whatever the number of attempts, a supervisor that has not terminated has
  handed nothing to the error channel, and one that has terminated exactly one value.
\<close>

theorem supervisor_reconnects_or_surfaces_last_error:
  assumes "listenAndParseEvents (i\<lparr>idleContexts := Suc (idleContexts i)\<rparr>) = Returned err j"
  shows
   "(\<not> parentDone j (idleContexts j) \<and> AutoReconnect j \<longrightarrow>
       Start (Suc n) i = Start n j \<and> errChan j = errChan i \<and>
       idleContexts j = Suc (idleContexts i) \<and>
       (session i \<noteq> [] \<longrightarrow>
          (\<exists>rs. requests (supervisor_bot (Start (Suc m) j)) =
             requests j @ (IdleContext (Suc (Suc (idleContexts i))), stream_request (session i)) # rs))) \<and>
    (parentDone j (idleContexts j) \<or> \<not> AutoReconnect j \<longrightarrow>
       Start (Suc n) i = Terminated (j\<lparr>errChan := errChan i @ [err]\<rparr>) \<and>
       (errChan i = [] \<longrightarrow>
          Err (j\<lparr>errChan := errChan i @ [err]\<rparr>) = Some (err, j\<lparr>errChan := []\<rparr>) \<and>
          Err (j\<lparr>errChan := []\<rparr>) = None)) \<and>
    (errChan i = [] \<longrightarrow>
       (case Start m i of
          Connected k \<Rightarrow> errChan k = []
        | Terminated k \<Rightarrow> length (errChan k) = 1
        | Halted a \<Rightarrow> errChan (attempt_bot a) = []))"
proof -
  let ?i = "i\<lparr>idleContexts := Suc (idleContexts i)\<rparr>"
  have f: "frame ?i j" using listen_frame[of ?i] assms by simp
  then have e: "errChan j = errChan i" and c: "idleContexts j = Suc (idleContexts i)"
    and s: "session j = session i"
    by (simp_all add: frame_def)
  have 1: "\<not> parentDone j (idleContexts j) \<and> AutoReconnect j \<Longrightarrow> Start (Suc n) i = Start n j"
    using assms by simp
  have 2: "parentDone j (idleContexts j) \<or> \<not> AutoReconnect j \<Longrightarrow>
       Start (Suc n) i = Terminated (j\<lparr>errChan := errChan i @ [err]\<rparr>)"
    using assms e by auto
  have 3: "session i \<noteq> [] \<Longrightarrow>
          (\<exists>rs. requests (supervisor_bot (Start (Suc m) j)) =
             requests j @ (IdleContext (Suc (Suc (idleContexts i))), stream_request (session i)) # rs)"
    using Start_first_request[of j m] s c by simp
  have 4: "errChan i = [] \<Longrightarrow>
       (case Start m i of
          Connected k \<Rightarrow> errChan k = []
        | Terminated k \<Rightarrow> length (errChan k) = 1
        | Halted a \<Rightarrow> errChan (attempt_bot a) = [])"
    using Start_extends[where n=m and i=i] by (cases "Start m i") auto
  show ?thesis
    using 1 2 3 4 e c by (auto simp: Err_def)
qed

theorem supervisor_reconnects_or_surfaces_last_error_witness:
  "listenAndParseEvents (persistent_bot\<lparr>idleContexts := 1\<rparr>) =
     Returned (Some (ErrorWhileReadingStream ''connection reset''))
       (persistent_bot\<lparr>idleContexts := 1,
          requests := [(IdleContext 1, stream_request ''secret'')]\<rparr>) \<and>
   Start 2 persistent_bot =
     Terminated (persistent_bot\<lparr>
        idleContexts := 2,
        requests := [(IdleContext 1, stream_request ''secret''),
                     (IdleContext 2, stream_request ''secret'')],
        errChan := [Some (ErrorWhileReadingStream ''connection reset'')]\<rparr>) \<and>
   Err (persistent_bot\<lparr>
        idleContexts := 2,
        requests := [(IdleContext 1, stream_request ''secret''),
                     (IdleContext 2, stream_request ''secret'')],
        errChan := [Some (ErrorWhileReadingStream ''connection reset'')]\<rparr>) =
     Some (Some (ErrorWhileReadingStream ''connection reset''),
           persistent_bot\<lparr>idleContexts := 2,
             requests := [(IdleContext 1, stream_request ''secret''),
                          (IdleContext 2, stream_request ''secret'')]\<rparr>)"
proof -
  let ?e = "Some (ErrorWhileReadingStream ''connection reset'')"
  let ?j1 = "persistent_bot\<lparr>idleContexts := 1,
          requests := [(IdleContext 1, stream_request ''secret'')]\<rparr>"
  let ?j2 = "persistent_bot\<lparr>idleContexts := 2,
          requests := [(IdleContext 1, stream_request ''secret''),
                       (IdleContext 2, stream_request ''secret'')]\<rparr>"
  have p: "idleContexts persistent_bot = 0" "errChan persistent_bot = []"
    "session persistent_bot = ''secret''" "AutoReconnect persistent_bot"
    "parentDone persistent_bot = (\<lambda>n. 2 \<le> n)"
    by (simp_all add: persistent_bot_def WithContext_def)
  have a: "listenAndParseEvents (persistent_bot\<lparr>idleContexts := Suc (idleContexts persistent_bot)\<rparr>)
            = Returned ?e ?j1"
    by (simp add: listenAndParseEvents_def getAuthenticatedRequest_def persistent_bot_def
          WithContext_def resetting_client_def quiet_client_def stream_request_def Let_def)
  have b: "listenAndParseEvents (?j1\<lparr>idleContexts := Suc (idleContexts ?j1)\<rparr>) = Returned ?e ?j2"
    by (simp add: listenAndParseEvents_def getAuthenticatedRequest_def persistent_bot_def
          WithContext_def resetting_client_def quiet_client_def stream_request_def Let_def)
  note T = supervisor_reconnects_or_surfaces_last_error
  have 1: "Start 2 persistent_bot = Start 1 ?j1"
    using T[OF a, of 1, THEN conjunct1] by (simp add: p numeral_2_eq_2)
  have 2: "Start 1 ?j1 = Terminated (?j2\<lparr>errChan := errChan ?j1 @ [?e]\<rparr>)"
    using T[OF b, of 0, THEN conjunct2, THEN conjunct1] by (simp add: p)
  have 3: "Err (?j2\<lparr>errChan := errChan ?j1 @ [?e]\<rparr>) = Some (?e, ?j2\<lparr>errChan := []\<rparr>)"
    using T[OF b, of 0, THEN conjunct2, THEN conjunct1] by (simp add: p)
  have q: "?j2\<lparr>errChan := []\<rparr> = ?j2" by (simp add: persistent_bot_def WithContext_def)
  show ?thesis using a 1 2 3 by (simp add: p q del: Start.simps)
qed

section \<open>Requests and the session credential\<close>

text \<open>
  Claim C9. No authenticated request is issued with an empty session credential. With an
  empty session \<open>getAuthenticatedRequest\<close> ends the process (\<open>log.Fatalf\<close>), and so do
  \<open>authenticatedPost\<close> and \<open>listenAndParseEvents\<close>, before anything is sent. A request it
  does build carries the non-empty session in its cookie. Hence, when every request
  sent so far carries a credential, so does every request sent by a form post and by
  any number of stream attempts of the supervisor, backlog fetches included.
\<close>

theorem no_request_without_session:
  "(session i = [] \<longrightarrow>
      getAuthenticatedRequest m p b i = None \<and> authenticatedPost p b i = Exits i \<and>
      listenAndParseEvents i = Aborted i) \<and>
   (\<forall>req. getAuthenticatedRequest m p b i = Some req \<longrightarrow>
      session i \<noteq> [] \<and> req_cookie req = ''session='' @ session i) \<and>
   (credentialed i \<longrightarrow>
      credentialed (bot_of (authenticatedPost p b i)) \<and>
      credentialed (supervisor_bot (Start n i)))"
proof (intro conjI impI allI)
  assume "session i = []"
  then show "getAuthenticatedRequest m p b i = None" "authenticatedPost p b i = Exits i"
     "listenAndParseEvents i = Aborted i"
    by (simp_all add: getAuthenticatedRequest_def authenticatedPost_def listenAndParseEvents_def)
next
  fix req assume "getAuthenticatedRequest m p b i = Some req"
  then show "session i \<noteq> []" "req_cookie req = ''session='' @ session i"
    by (auto simp: getAuthenticatedRequest_def split: if_splits)
next
  assume c: "credentialed i"
  from authenticatedPost_requests[of p b i] c
  show "credentialed (bot_of (authenticatedPost p b i))"
    by (auto simp: credentialed_def)
  from c show "credentialed (supervisor_bot (Start n i))" by (rule Start_credentialed)
qed

theorem no_request_without_session_witness:
  "authenticatedPost ''/chat/say'' Map.empty (plain_bot\<lparr>session := []\<rparr>)
     = Exits (plain_bot\<lparr>session := []\<rparr>) \<and>
   listenAndParseEvents (plain_bot\<lparr>session := []\<rparr>) = Aborted (plain_bot\<lparr>session := []\<rparr>) \<and>
   credentialed plain_bot \<and>
   credentialed (bot_of (authenticatedPost ''/chat/say'' Map.empty plain_bot)) \<and>
   credentialed (supervisor_bot (Start 2 plain_bot)) \<and>
   requests (bot_of (authenticatedPost ''/chat/say'' Map.empty plain_bot)) \<noteq> []"
proof -
  have e: "session (plain_bot\<lparr>session := []\<rparr>) = []" by simp
  have c: "credentialed plain_bot" by (simp add: plain_bot_def WithContext_def credentialed_def)
  have r: "requests (bot_of (authenticatedPost ''/chat/say'' Map.empty plain_bot)) \<noteq> []"
    by (simp add: authenticatedPost_def getAuthenticatedRequest_def plain_bot_def
        WithContext_def quiet_client_def Let_def)
  show ?thesis
    using e c r
      no_request_without_session[of "plain_bot\<lparr>session := []\<rparr>" "''POST''" "''/chat/say''" Map.empty 2]
      no_request_without_session[of plain_bot "''POST''" "''/chat/say''" Map.empty 2]
    by simp
qed

section \<open>End of stream\<close>

text \<open>
  Claim C10. When the scan reaches the end of the stream and the scanner reports no
  error, \<open>listenAndParseEvents\<close> returns \<open>nil\<close>. When the attempt has returned \<open>nil\<close> and
  the parent context is cancelled or \<open>AutoReconnect\<close> is off, \<open>Start\<close> hands \<open>nil\<close> to the
  error channel and \<open>Err\<close> yields \<open>nil\<close>.
\<close>

theorem end_of_stream_yields_nil_error:
  "(getAuthenticatedRequest ''GET'' ''/chat/stream'' Map.empty i = Some req \<and>
    stream (HTTPClient i) (idleContexts i) req = Stream ls None \<and>
    scan_loop ls (i\<lparr>requests := requests i @ [(IdleContext (idleContexts i), req)]\<rparr>) = ScanEnded j \<longrightarrow>
      listenAndParseEvents i = Returned None j) \<and>
   (listenAndParseEvents (i\<lparr>idleContexts := Suc (idleContexts i)\<rparr>) = Returned None k \<and>
    (parentDone k (idleContexts k) \<or> \<not> AutoReconnect k) \<and> errChan i = [] \<longrightarrow>
      Start (Suc n) i = Terminated (k\<lparr>errChan := [None]\<rparr>) \<and>
      Err (k\<lparr>errChan := [None]\<rparr>) = Some (None, k\<lparr>errChan := []\<rparr>))"
proof (intro conjI impI)
  assume "getAuthenticatedRequest ''GET'' ''/chat/stream'' Map.empty i = Some req \<and>
    stream (HTTPClient i) (idleContexts i) req = Stream ls None \<and>
    scan_loop ls (i\<lparr>requests := requests i @ [(IdleContext (idleContexts i), req)]\<rparr>) = ScanEnded j"
  then show "listenAndParseEvents i = Returned None j"
    by (simp add: listenAndParseEvents_def Let_def)
next
  let ?i = "i\<lparr>idleContexts := Suc (idleContexts i)\<rparr>"
  assume a: "listenAndParseEvents ?i = Returned None k \<and>
    (parentDone k (idleContexts k) \<or> \<not> AutoReconnect k) \<and> errChan i = []"
  have "frame ?i k" using listen_frame[of ?i] a by simp
  then have e: "errChan k = []" using a by (simp add: frame_def)
  show "Start (Suc n) i = Terminated (k\<lparr>errChan := [None]\<rparr>)"
    using a e by auto
  show "Err (k\<lparr>errChan := [None]\<rparr>) = Some (None, k\<lparr>errChan := []\<rparr>)"
    by (simp add: Err_def)
qed

theorem end_of_stream_yields_nil_error_witness:
  "listenAndParseEvents (single_shot_bot\<lparr>idleContexts := 1\<rparr>) =
     Returned None
       (single_shot_bot\<lparr>idleContexts := 1, idleTimerResets := 2,
          calls := [InternalCall (unmarshal idle_record)],
          diagnostics := [''{oops'', ''[]''],
          eventChan := [unmarshal message_record],
          requests := [(IdleContext 1, stream_request ''secret'')]\<rparr>) \<and>
   Start 1 single_shot_bot =
     Terminated
       (single_shot_bot\<lparr>idleContexts := 1, idleTimerResets := 2,
          calls := [InternalCall (unmarshal idle_record)],
          diagnostics := [''{oops'', ''[]''],
          eventChan := [unmarshal message_record],
          requests := [(IdleContext 1, stream_request ''secret'')],
          errChan := [None]\<rparr>) \<and>
   Err (single_shot_bot\<lparr>idleContexts := 1, idleTimerResets := 2,
          calls := [InternalCall (unmarshal idle_record)],
          diagnostics := [''{oops'', ''[]''],
          eventChan := [unmarshal message_record],
          requests := [(IdleContext 1, stream_request ''secret'')],
          errChan := [None]\<rparr>) =
     Some (None,
       single_shot_bot\<lparr>idleContexts := 1, idleTimerResets := 2,
          calls := [InternalCall (unmarshal idle_record)],
          diagnostics := [''{oops'', ''[]''],
          eventChan := [unmarshal message_record],
          requests := [(IdleContext 1, stream_request ''secret'')],
          errChan := []\<rparr>)"
proof -
  let ?i = "single_shot_bot\<lparr>idleContexts := 1\<rparr>"
  let ?k = "single_shot_bot\<lparr>idleContexts := 1, idleTimerResets := 2,
          calls := [InternalCall (unmarshal idle_record)],
          diagnostics := [''{oops'', ''[]''],
          eventChan := [unmarshal message_record],
          requests := [(IdleContext 1, stream_request ''secret'')]\<rparr>"
  note T = end_of_stream_yields_nil_error
  have p: "idleContexts single_shot_bot = 0" "errChan single_shot_bot = []"
    "\<not> AutoReconnect single_shot_bot"
    by (simp_all add: single_shot_bot_def WithContext_def)
  have g: "getAuthenticatedRequest ''GET'' ''/chat/stream'' Map.empty ?i
             = Some (stream_request ''secret'')"
    by (simp add: getAuthenticatedRequest_def single_shot_bot_def WithContext_def stream_request_def)
  have s: "stream (HTTPClient ?i) (idleContexts ?i) (stream_request ''secret'') = Stream mixed_lines None"
    by (simp add: single_shot_bot_def WithContext_def)
  have l: "scan_loop mixed_lines
             (?i\<lparr>requests := requests ?i @ [(IdleContext (idleContexts ?i), stream_request ''secret'')]\<rparr>)
           = ScanEnded ?k"
    by (simp add: mixed_lines_def single_shot_bot_def WithContext_def quiet_client_def message_record_def idle_record_def run_defs map_add_def)
  have 1: "listenAndParseEvents ?i = Returned None ?k"
    using T[of ?i "stream_request ''secret''" mixed_lines ?k, THEN conjunct1] g s l by blast
  have one: "listenAndParseEvents (single_shot_bot\<lparr>idleContexts := Suc (idleContexts single_shot_bot)\<rparr>)
              = Returned None ?k"
    using 1 by (simp add: p)
  have h: "parentDone ?k (idleContexts ?k) \<or> \<not> AutoReconnect ?k"
    by (simp add: single_shot_bot_def WithContext_def)
  have 2: "Start (Suc 0) single_shot_bot = Terminated (?k\<lparr>errChan := [None]\<rparr>) \<and>
      Err (?k\<lparr>errChan := [None]\<rparr>) = Some (None, ?k\<lparr>errChan := []\<rparr>)"
    using T[of single_shot_bot "stream_request ''secret''" "[]" single_shot_bot ?k 0,
            THEN conjunct2, THEN mp, OF conjI[OF one conjI[OF h p(2)]]] .
  show ?thesis using 1 2 by (simp del: Start.simps)
qed

end
